theory Spec2Isabelle
  imports Main "HOL-Library.Sublist"
begin

section \<open>Data of the host and of the plugin\<close>

text \<open>
  A value read from a frontmatter object: a boolean, an integral number, \<open>NaN\<close>, a string,
  \<open>null\<close>, or any other value (\<open>VOther\<close>: a number that is not integral, a list, a
  mapping, a function), which is truthy, is not a boolean, and which the plugin never looks
  into. \<open>undefined\<close> is \<open>None\<close>.
\<close>

datatype fmval = VBool bool | VNum int | VNaN | VStr string | VNull | VOther

text \<open>The own properties of a frontmatter object, as the YAML parser of the host has
  made them.\<close>

type_synonym FrontMatter = "string \<rightharpoonup> fmval"

text \<open>The names every plain object inherits from \<open>Object.prototype\<close>. Each of them reads
  as a function, and \<open>__proto__\<close> as the prototype itself, unless the object has an own
  property of that name.\<close>

definition objectPrototypeNames :: "string list" where
  "objectPrototypeNames =
     [''constructor'', ''__defineGetter__'', ''__defineSetter__'', ''hasOwnProperty'',
      ''__lookupGetter__'', ''__lookupSetter__'', ''isPrototypeOf'', ''propertyIsEnumerable'',
      ''toString'', ''valueOf'', ''__proto__'', ''toLocaleString'']"

text \<open>\<open>frontmatter[key]\<close>: the own property, else the inherited one, else \<open>undefined\<close>.\<close>

definition readProperty :: "FrontMatter \<Rightarrow> string \<Rightarrow> fmval option" where
  "readProperty fm key =
     (case fm key of
        Some v \<Rightarrow> Some v
      | None \<Rightarrow> if key \<in> set objectPrototypeNames then Some VOther else None)"

text \<open>The three fields of a \<open>TFile\<close> that the plugin reads; \<open>parent\<close> is \<open>file.parent?.path\<close>.\<close>

record TFile =
  path :: string
  name :: string
  parent :: "string option"

text \<open>What \<open>getAbstractFileByPath\<close> may return: a folder, or a file (with its frontmatter).\<close>

datatype TAbstractFile = Folder | Document FrontMatter

record CachedMetadata =
  frontmatter :: "FrontMatter option"

text \<open>
  A JavaScript number that holds a count: a double whose value is a natural number, or
  \<open>Infinity\<close>.
\<close>

datatype jsnumber = Num nat | PosInfinity

text \<open>The instant \<open>new Date()\<close> as the time zone of the process breaks it down, with the
  offset of that zone from UTC in minutes, east positive. \<open>year\<close> is the year of the era,
  which is what the token \<open>y\<close> of the date library prints.\<close>

record LocalDateTime =
  year :: nat
  month :: nat
  day :: nat
  hours :: nat
  minutes :: nat
  seconds :: nat
  offsetMinutes :: int

text \<open>\<open>interface TaskflowPluginSettings\<close> (main.ts 6-18). The basic variant of the plugin
  (main.ts 517-523) has the five fields \<open>propertyName\<close>, \<open>trueFolder\<close>, \<open>falseFolder\<close>,
  \<open>enableCompletedDate\<close>, \<open>completedDatePropertyName\<close> only, and reads no other.\<close>

record TaskflowPluginSettings =
  rootFolder :: string
  templatePath :: string
  propertyName :: string
  trueFolder :: string
  falseFolder :: string
  iceboxFolder :: string
  enableBacklog :: bool
  backlogFolder :: string
  enableCompletedDate :: bool
  completedDatePropertyName :: string
  taskCounter :: jsnumber

text \<open>The mutating calls the plugin makes on the host, the error a failed call throws,
  and the lines the plugin writes to the console.\<close>

datatype hostcall =
  CreateFolder string
  | Rename string string
  | ProcessFrontMatter string
  | SaveData

datatype error = HostError hostcall

datatype console_line =
  Warn_SettingsIncomplete
  | Log_Moved string string
  | Error_Processing string error
  | Error_TargetIsFile string

text \<open>
  The plugin object together with the host it runs in.
  \<^item> \<open>settings\<close>, \<open>processing\<close>: the two fields of \<open>TaskflowPlugin\<close>;
  \<^item> \<open>vault\<close>: the storage, a path mapped to the folder or file at it;
  \<^item> \<open>metadataCache\<close>: the snapshot \<open>getFileCache\<close> answers from, by path (it may lag
    behind the vault);
  \<^item> \<open>console\<close>: the lines written so far;
  \<^item> \<open>calls\<close>: every mutating host call attempted so far, each with whether it threw;
  \<^item> \<open>guardSeen\<close>: for each of these calls, the guard set the plugin had while the call
    was awaited, which is what a notification delivered in the meantime finds;
  \<^item> \<open>hostFails\<close>: which host calls throw (permissions, I/O, a rejected path), unknown to
    the plugin and arbitrary;
  \<^item> \<open>clock\<close>: the current instant in the time zone of the process.
\<close>

record world =
  settings :: TaskflowPluginSettings
  processing :: "string set"
  vault :: "string \<rightharpoonup> TAbstractFile"
  metadataCache :: "string \<rightharpoonup> CachedMetadata"
  console :: "console_line list"
  calls :: "(hostcall \<times> bool) list"
  guardSeen :: "(hostcall \<times> string set) list"
  hostFails :: "hostcall \<Rightarrow> bool"
  clock :: LocalDateTime

section \<open>String helpers\<close>

definition startsWith :: "string \<Rightarrow> string \<Rightarrow> bool" where
  "startsWith str pre = prefix pre str"

text \<open>\<open>str.split('/')\<close>: never empty; an empty string splits into one empty part.\<close>

fun split_slash :: "string \<Rightarrow> string list" where
  "split_slash [] = [[]]"
| "split_slash (c # cs) =
     (if c = CHR ''/'' then [] # split_slash cs
      else (case split_slash cs of
              [] \<Rightarrow> [[c]]
            | p # ps \<Rightarrow> (c # p) # ps))"

definition basename :: "string \<Rightarrow> string" where
  "basename p = rev (takeWhile (\<lambda>c. c \<noteq> CHR ''/'') (rev p))"

definition dirname :: "string \<Rightarrow> string" where
  "dirname p =
     (let d = rev (drop 1 (dropWhile (\<lambda>c. c \<noteq> CHR ''/'') (rev p)))
      in if d = [] then ''/'' else d)"

text \<open>\<open>buildPath\<close> (main.ts 37-41).\<close>

definition buildPath :: "string \<Rightarrow> string \<Rightarrow> string" where
  "buildPath root sub =
     (if root = [] then sub
      else if sub = [] then root
      else root @ ''/'' @ sub)"

section \<open>The host interface\<close>

text \<open>
  The Obsidian API is not part of this repository; its operations are modelled from the
  interface of section 6 of the specification. A read looks the world up. A mutating call
  is recorded in \<open>calls\<close> when it is attempted, with \<open>True\<close> when it threw, and in
  \<open>guardSeen\<close> with the guard set of that moment; it throws when \<open>hostFails\<close> says so or
  when its own precondition fails, and then changes nothing else. The preconditions are the
  weakest: a host that rejects more (a path under a file, say) is a choice of \<open>hostFails\<close>.
\<close>

text \<open>Modelled from the spec: \<open>getByPath(path) -> Document|absent\<close> of the document
  storage (\<open>vault.getAbstractFileByPath\<close>), \<open>None\<close> for \<open>null\<close>.\<close>

definition getAbstractFileByPath :: "world \<Rightarrow> string \<Rightarrow> TAbstractFile option" where
  "getAbstractFileByPath w p = vault w p"

text \<open>Modelled from the spec: \<open>getParsedMetadata(doc) -> mapping|absent\<close> of the metadata
  cache (\<open>metadataCache.getFileCache\<close>), answered for the path the \<open>TFile\<close> has now.\<close>

definition getFileCache :: "world \<Rightarrow> TFile \<Rightarrow> CachedMetadata option" where
  "getFileCache w file = metadataCache w (path file)"

text \<open>Modelled from the spec: \<open>createContainer(path)\<close> of the document storage
  (\<open>vault.createFolder\<close>); it throws when something exists at the path already.\<close>

definition createFolder :: "world \<Rightarrow> string \<Rightarrow> error option \<times> world" where
  "createFolder w p =
     (let c = CreateFolder p;
          w1 = w\<lparr>guardSeen := guardSeen w @ [(c, processing w)]\<rparr> in
      if hostFails w c \<or> vault w p \<noteq> None
      then (Some (HostError c), w1\<lparr>calls := calls w @ [(c, True)]\<rparr>)
      else (None, w1\<lparr>calls := calls w @ [(c, False)], vault := (vault w)(p \<mapsto> Folder)\<rparr>))"

text \<open>Modelled from the spec: \<open>rename(doc, newPath)\<close> of the document storage
  (\<open>vault.rename\<close>); it throws when the \<open>TFile\<close> is not a file of the vault or when
  something exists at \<open>newPath\<close> already (the name collision of section 7). It moves the
  file with its content and updates the \<open>TFile\<close> object.\<close>

definition rename :: "world \<Rightarrow> TFile \<Rightarrow> string \<Rightarrow> error option \<times> world \<times> TFile" where
  "rename w file newPath =
     (let c = Rename (path file) newPath;
          w1 = w\<lparr>guardSeen := guardSeen w @ [(c, processing w)]\<rparr> in
      case vault w (path file) of
        Some (Document fm) \<Rightarrow>
          if hostFails w c \<or> vault w newPath \<noteq> None
          then (Some (HostError c), w1\<lparr>calls := calls w @ [(c, True)]\<rparr>, file)
          else (None,
                w1\<lparr>calls := calls w @ [(c, False)],
                   vault := (vault w)(path file := None, newPath \<mapsto> Document fm)\<rparr>,
                file\<lparr>path := newPath, name := basename newPath,
                     parent := Some (dirname newPath)\<rparr>)
      | _ \<Rightarrow> (Some (HostError c), w1\<lparr>calls := calls w @ [(c, True)]\<rparr>, file))"

text \<open>Modelled from the spec: \<open>patchMetadata(doc, mutatorFn)\<close> of the metadata mutator
  (\<open>fileManager.processFrontMatter\<close>): it applies \<open>fn\<close> to the frontmatter of the file
  and writes the result back; it throws when the \<open>TFile\<close> is not a file of the vault.\<close>

definition processFrontMatter ::
  "world \<Rightarrow> TFile \<Rightarrow> (FrontMatter \<Rightarrow> FrontMatter) \<Rightarrow> error option \<times> world" where
  "processFrontMatter w file fn =
     (let c = ProcessFrontMatter (path file);
          w1 = w\<lparr>guardSeen := guardSeen w @ [(c, processing w)]\<rparr> in
      case vault w (path file) of
        Some (Document fm) \<Rightarrow>
          if hostFails w c
          then (Some (HostError c), w1\<lparr>calls := calls w @ [(c, True)]\<rparr>)
          else (None,
                w1\<lparr>calls := calls w @ [(c, False)],
                   vault := (vault w)(path file \<mapsto> Document (fn fm))\<rparr>)
      | _ \<Rightarrow> (Some (HostError c), w1\<lparr>calls := calls w @ [(c, True)]\<rparr>))"

text \<open>The decimal digits of a natural number, and \<open>addLeadingZeros\<close> of the date
  library: the digits padded with zeros on the left to a given width.\<close>

definition digitChar :: "nat \<Rightarrow> char" where
  "digitChar n = ''0123456789'' ! n"

fun decimal :: "nat \<Rightarrow> string" where
  "decimal n = (if n < 10 then [digitChar n] else decimal (n div 10) @ [digitChar (n mod 10)])"

declare decimal.simps [simp del]

definition addLeadingZeros :: "nat \<Rightarrow> nat \<Rightarrow> string" where
  "addLeadingZeros n targetLength =
     replicate (targetLength - length (decimal n)) (CHR ''0'') @ decimal n"

text \<open>The token \<open>XXX\<close>: \<open>Z\<close> for no offset, else sign, hours, a colon and minutes.\<close>

definition formatOffset :: "int \<Rightarrow> string" where
  "formatOffset off =
     (if off = 0 then ''Z''
      else (if off < 0 then ''-'' else ''+'')
           @ addLeadingZeros (nat \<bar>off\<bar> div 60) 2 @ '':''
           @ addLeadingZeros (nat \<bar>off\<bar> mod 60) 2)"

text \<open>Modelled from the spec: the stamp of step 9, the current instant formatted as an
  ISO-8601 timestamp with explicit UTC offset in the local time zone, which the plugin
  obtains from \<open>formatInTimeZone(now, timeZone, "yyyy-MM-dd'T'HH:mm:ssXXX")\<close> of the library
  \<open>date-fns-tz\<close> (main.ts 278-280); the pattern is read token by token.\<close>

definition formatInTimeZone :: "LocalDateTime \<Rightarrow> string" where
  "formatInTimeZone now =
     addLeadingZeros (year now) 4 @ ''-'' @ addLeadingZeros (month now) 2 @ ''-''
     @ addLeadingZeros (day now) 2 @ ''T'' @ addLeadingZeros (hours now) 2 @ '':''
     @ addLeadingZeros (minutes now) 2 @ '':'' @ addLeadingZeros (seconds now) 2
     @ formatOffset (offsetMinutes now)"

text \<open>Modelled from the spec: \<open>save(Configuration)\<close> of the configuration store
  (\<open>Plugin.saveData\<close>).\<close>

definition saveData :: "world \<Rightarrow> error option \<times> world" where
  "saveData w =
     (let w1 = w\<lparr>guardSeen := guardSeen w @ [(SaveData, processing w)]\<rparr> in
      if hostFails w SaveData
      then (Some (HostError SaveData), w1\<lparr>calls := calls w @ [(SaveData, True)]\<rparr>)
      else (None, w1\<lparr>calls := calls w @ [(SaveData, False)]\<rparr>))"

section \<open>The extended variant (main.ts 1-511)\<close>

text \<open>\<open>DEFAULT_SETTINGS\<close> (main.ts 21-33); the property name is the check mark U+2705,
  here its three bytes in UTF-8.\<close>

definition checkmark :: string where
  "checkmark = [CHR 0xE2, CHR 0x9C, CHR 0x85]"

definition DEFAULT_SETTINGS :: TaskflowPluginSettings where
  "DEFAULT_SETTINGS =
     \<lparr>rootFolder = ''taskflow'', templatePath = [], propertyName = checkmark,
      trueFolder = ''archive'', falseFolder = [], iceboxFolder = ''icebox'',
      enableBacklog = False, backlogFolder = ''backlog'', enableCompletedDate = False,
      completedDatePropertyName = ''completed_date'', taskCounter = Num 1\<rparr>"

text \<open>\<open>saveSettings\<close> (main.ts 113-115).\<close>

definition saveSettings :: "world \<Rightarrow> error option \<times> world" where
  "saveSettings w = saveData w"

text \<open>
  \<open>ensureFolder\<close> (main.ts 202-213). The loop over \<open>parts\<close> carries \<open>current\<close>; a thrown
  error leaves the loop with the world as it is.
\<close>

fun ensureFolder_loop :: "world \<Rightarrow> string \<Rightarrow> string list \<Rightarrow> error option \<times> world" where
  "ensureFolder_loop w current [] = (None, w)"
| "ensureFolder_loop w current (part # parts) =
     (let current' = (if current \<noteq> [] then current @ ''/'' @ part else part) in
      case getAbstractFileByPath w current' of
        Some existing \<Rightarrow> ensureFolder_loop w current' parts
      | None \<Rightarrow>
          (case createFolder w current' of
             (Some e, w') \<Rightarrow> (Some e, w')
           | (None, w') \<Rightarrow> ensureFolder_loop w' current' parts))"

definition ensureFolder :: "world \<Rightarrow> string \<Rightarrow> error option \<times> world" where
  "ensureFolder w folderPath =
     (if folderPath = [] then (None, w)
      else ensureFolder_loop w [] (split_slash folderPath))"

text \<open>JavaScript's \<open>!v\<close> on a value read from a frontmatter object.\<close>

fun falsy :: "fmval option \<Rightarrow> bool" where
  "falsy None = True"
| "falsy (Some VNull) = True"
| "falsy (Some (VBool b)) = (\<not> b)"
| "falsy (Some (VNum n)) = (n = 0)"
| "falsy (Some VNaN) = True"
| "falsy (Some (VStr s)) = (s = [])"
| "falsy (Some VOther) = False"

text \<open>The two callbacks handed to \<open>processFrontMatter\<close> (main.ts 276-282 and 284-286);
  \<open>key\<close> is \<open>completedDatePropertyName\<close>, \<open>now\<close> the instant \<open>new Date()\<close> in the local
  time zone.\<close>

definition stampCompletedDate ::
  "string \<Rightarrow> LocalDateTime \<Rightarrow> FrontMatter \<Rightarrow> FrontMatter" where
  "stampCompletedDate key now fm =
     (if falsy (readProperty fm key) then fm(key \<mapsto> VStr (formatInTimeZone now)) else fm)"

definition clearCompletedDate :: "string \<Rightarrow> FrontMatter \<Rightarrow> FrontMatter" where
  "clearCompletedDate key fm = fm(key := None)"

text \<open>Step 2 of \<open>processFile\<close> (main.ts 274-288); \<open>propertyValue\<close> is \<open>true\<close> or \<open>false\<close> here.\<close>

definition processFile_stamp :: "world \<Rightarrow> TFile \<Rightarrow> bool \<Rightarrow> error option \<times> world" where
  "processFile_stamp w file propertyValue =
     (if enableCompletedDate (settings w) \<and> completedDatePropertyName (settings w) \<noteq> []
      then
        (if propertyValue
         then processFrontMatter w file
                (stampCompletedDate (completedDatePropertyName (settings w)) (clock w))
         else processFrontMatter w file
                (clearCompletedDate (completedDatePropertyName (settings w))))
      else (None, w))"

text \<open>The rename and what follows it (main.ts 269-288, and 627-646 in the basic variant).\<close>

definition processFile_rename ::
  "world \<Rightarrow> TFile \<Rightarrow> string \<Rightarrow> bool \<Rightarrow> string \<Rightarrow> error option \<times> world \<times> TFile" where
  "processFile_rename w file originalPath propertyValue newPath =
     (case rename w file newPath of
        (Some e, w', file') \<Rightarrow> (Some e, w', file')
      | (None, w', file') \<Rightarrow>
          (let w'' = w'\<lparr>console := console w' @ [Log_Moved originalPath newPath]\<rparr> in
           case processFile_stamp w'' file' propertyValue of
             (r, w''') \<Rightarrow> (r, w''', file')))"

text \<open>From the idempotence check to the end of the \<open>try\<close> block (main.ts 260-288).\<close>

definition processFile_move ::
  "world \<Rightarrow> TFile \<Rightarrow> string \<Rightarrow> bool \<Rightarrow> string \<Rightarrow> error option \<times> world \<times> TFile" where
  "processFile_move w file originalPath propertyValue targetFolder =
     (let currentFolderPath = (case parent file of None \<Rightarrow> [] | Some p \<Rightarrow> p) in
      if currentFolderPath = targetFolder then (None, w, file)
      else
        (let newPath = targetFolder @ ''/'' @ name file in
         case ensureFolder w targetFolder of
           (Some e, w') \<Rightarrow> (Some e, w', file)
         | (None, w') \<Rightarrow> processFile_rename w' file originalPath propertyValue newPath))"

text \<open>The body of the \<open>try\<close> block (main.ts 228-289): \<open>None\<close> when it returns or runs to
  its end, \<open>Some e\<close> when it throws \<open>e\<close>.\<close>

definition processFile_try :: "world \<Rightarrow> TFile \<Rightarrow> string \<Rightarrow> error option \<times> world \<times> TFile" where
  "processFile_try w file originalPath =
     (let root = rootFolder (settings w) in
      if root \<noteq> [] \<and> \<not> startsWith (path file) (root @ ''/'') then (None, w, file)
      else
        (let absoluteTrueFolder = buildPath root (trueFolder (settings w));
             absoluteFalseFolder = buildPath root (falseFolder (settings w)) in
         if propertyName (settings w) = [] \<or> absoluteTrueFolder = [] \<or> absoluteFalseFolder = []
         then (None, w\<lparr>console := console w @ [Warn_SettingsIncomplete]\<rparr>, file)
         else
           (case getFileCache w file of
              None \<Rightarrow> (None, w, file)
            | Some fileCache \<Rightarrow>
                (case frontmatter fileCache of
                   None \<Rightarrow> (None, w, file)
                 | Some fm \<Rightarrow>
                     (let propertyValue = readProperty fm (propertyName (settings w)) in
                      if propertyValue = Some (VBool True)
                      then processFile_move w file originalPath True absoluteTrueFolder
                      else if propertyValue = Some (VBool False)
                      then processFile_move w file originalPath False absoluteFalseFolder
                      else (None, w, file))))))"

text \<open>
  The \<open>catch\<close> and \<open>finally\<close> clauses of \<open>processFile\<close> (main.ts 290-294, and 648-652
  in the basic variant, the same text), applied to the outcome of the \<open>try\<close> block: a thrown
  error is written to the console with \<open>originalPath\<close> and goes no further, and the path
  leaves the guard set whatever the outcome.
\<close>

definition processFile_catch_finally ::
  "string \<Rightarrow> error option \<times> world \<times> TFile \<Rightarrow> error option \<times> world \<times> TFile" where
  "processFile_catch_finally originalPath outcome =
     (case outcome of
        (r, w2, file') \<Rightarrow>
          (let w3 = (case r of
                       Some e \<Rightarrow> w2\<lparr>console := console w2 @ [Error_Processing originalPath e]\<rparr>
                     | None \<Rightarrow> w2);
               w4 = w3\<lparr>processing := processing w3 - {originalPath}\<rparr>
           in (None, w4, file')))"

text \<open>
  \<open>processFile\<close> (main.ts 220-295): the guard, the \<open>try\<close> block, \<open>catch\<close> and \<open>finally\<close>.
  The first component of the result is the error that leaves the function, the third the
  \<open>TFile\<close> object as the host has left it.
\<close>

definition processFile :: "world \<Rightarrow> TFile \<Rightarrow> error option \<times> world \<times> TFile" where
  "processFile w file =
     (let originalPath = path file in
      if originalPath \<in> processing w then (None, w, file)
      else
        (let w1 = w\<lparr>processing := insert originalPath (processing w)\<rparr> in
         processFile_catch_finally originalPath (processFile_try w1 file originalPath)))"

section \<open>The basic variant (main.ts 512-730)\<close>

text \<open>From the idempotence check to the end of the \<open>try\<close> block (main.ts 612-646).\<close>

definition processFile_basic_move ::
  "world \<Rightarrow> TFile \<Rightarrow> string \<Rightarrow> bool \<Rightarrow> string \<Rightarrow> error option \<times> world \<times> TFile" where
  "processFile_basic_move w file originalPath propertyValue targetFolder =
     (let currentFolderPath = (case parent file of None \<Rightarrow> [] | Some p \<Rightarrow> p) in
      if currentFolderPath = targetFolder then (None, w, file)
      else
        (let newPath = targetFolder @ ''/'' @ name file in
         case getAbstractFileByPath w targetFolder of
           None \<Rightarrow>
             (case createFolder w targetFolder of
                (Some e, w') \<Rightarrow> (Some e, w', file)
              | (None, w') \<Rightarrow> processFile_rename w' file originalPath propertyValue newPath)
         | Some (Document fm) \<Rightarrow>
             (None, w\<lparr>console := console w @ [Error_TargetIsFile targetFolder]\<rparr>, file)
         | Some Folder \<Rightarrow> processFile_rename w file originalPath propertyValue newPath))"

text \<open>The body of the \<open>try\<close> block (main.ts 588-647).\<close>

definition processFile_basic_try ::
  "world \<Rightarrow> TFile \<Rightarrow> string \<Rightarrow> error option \<times> world \<times> TFile" where
  "processFile_basic_try w file originalPath =
     (if propertyName (settings w) = [] \<or> trueFolder (settings w) = []
         \<or> falseFolder (settings w) = []
      then (None, w\<lparr>console := console w @ [Warn_SettingsIncomplete]\<rparr>, file)
      else
        (case getFileCache w file of
           None \<Rightarrow> (None, w, file)
         | Some fileCache \<Rightarrow>
             (case frontmatter fileCache of
                None \<Rightarrow> (None, w, file)
              | Some fm \<Rightarrow>
                  (let propertyValue = readProperty fm (propertyName (settings w)) in
                   if propertyValue = Some (VBool True)
                   then processFile_basic_move w file originalPath True (trueFolder (settings w))
                   else if propertyValue = Some (VBool False)
                   then processFile_basic_move w file originalPath False
                          (falseFolder (settings w))
                   else (None, w, file)))))"

text \<open>\<open>processFile\<close> of the basic variant (main.ts 580-653).\<close>

definition processFile_basic :: "world \<Rightarrow> TFile \<Rightarrow> error option \<times> world \<times> TFile" where
  "processFile_basic w file =
     (let originalPath = path file in
      if originalPath \<in> processing w then (None, w, file)
      else
        (let w1 = w\<lparr>processing := insert originalPath (processing w)\<rparr> in
         processFile_catch_finally originalPath (processFile_basic_try w1 file originalPath)))"

section \<open>The task counter (main.ts 121-137)\<close>

text \<open>The class \<open>\d\<close> of a regular expression without the \<open>u\<close> flag: an ASCII digit.\<close>

definition isDigit :: "char \<Rightarrow> bool" where
  "isDigit c = (c \<in> set ''0123456789'')"

text \<open>\<open>name.match(/^\[TASK-(\d+)\]/)\<close>: the digits of group 1, or \<open>None\<close> for \<open>null\<close>.
  The group is greedy and the next character must be \<open>]\<close>, so it is the whole run of
  digits after the opening \<open>[TASK-\<close>.\<close>

definition matchTask :: "string \<Rightarrow> string option" where
  "matchTask nm =
     (if startsWith nm ''[TASK-'' then
        (let rest = drop 6 nm;
             ds = takeWhile isDigit rest;
             after = dropWhile isDigit rest
         in if ds \<noteq> [] \<and> startsWith after '']'' then Some ds else None)
      else None)"

text \<open>The natural number a string of decimal digits denotes.\<close>

definition digitVal :: "char \<Rightarrow> nat" where
  "digitVal c = of_char c - 48"

definition decimalValue :: "string \<Rightarrow> nat" where
  "decimalValue ds = foldl (\<lambda>n c. 10 * n + digitVal c) 0 ds"

text \<open>
  The double nearest to a natural number. Doubles have 53 significant bits: below \<open>2^53\<close>
  every natural number is a double, and from there on the doubles are the multiples of
  \<open>ulp n\<close>, the power of two that leaves 53 bits. A number halfway between two doubles
  goes to the one whose last bit is zero; a result of \<open>2^1024\<close> or more is \<open>Infinity\<close>.
\<close>

fun ulp :: "nat \<Rightarrow> nat" where
  "ulp n = (if n < 2 ^ 53 then 1 else 2 * ulp (n div 2))"

declare ulp.simps [simp del]

definition roundToDouble :: "nat \<Rightarrow> nat" where
  "roundToDouble n =
     (let u = ulp n; q = n div u; r = n mod u
      in if u < 2 * r \<or> (u = 2 * r \<and> odd q) then (q + 1) * u else q * u)"

definition toNumber :: "nat \<Rightarrow> jsnumber" where
  "toNumber n = (let d = roundToDouble n in if d < 2 ^ 1024 then Num d else PosInfinity)"

text \<open>\<open>parseInt(ds, 10)\<close> on a non-empty string of decimal digits: the number value of the
  integer they denote. (Beyond twenty digits the language lets an implementation read
  the later digits as zeros; this is the exact reading.)\<close>

definition parseInt :: "string \<Rightarrow> jsnumber" where
  "parseInt ds = toNumber (decimalValue ds)"

text \<open>\<open>a > b\<close> and \<open>a + 1\<close> on these numbers.\<close>

fun greater :: "jsnumber \<Rightarrow> jsnumber \<Rightarrow> bool" where
  "greater (Num a) (Num b) = (b < a)"
| "greater PosInfinity (Num b) = True"
| "greater a PosInfinity = False"

fun plusOne :: "jsnumber \<Rightarrow> jsnumber" where
  "plusOne (Num a) = toNumber (a + 1)"
| "plusOne PosInfinity = PosInfinity"

fun detectTaskCounter_loop :: "string \<Rightarrow> TFile list \<Rightarrow> jsnumber \<Rightarrow> jsnumber" where
  "detectTaskCounter_loop root [] maxNum = maxNum"
| "detectTaskCounter_loop root (file # files) maxNum =
     (if root \<noteq> [] \<and> \<not> startsWith (path file) (root @ ''/'')
      then detectTaskCounter_loop root files maxNum
      else
        (case matchTask (name file) of
           Some ds \<Rightarrow>
             (let num = parseInt ds in
              detectTaskCounter_loop root files (if greater num maxNum then num else maxNum))
         | None \<Rightarrow> detectTaskCounter_loop root files maxNum))"

text \<open>\<open>detectTaskCounter\<close>; \<open>files\<close> is what \<open>vault.getMarkdownFiles()\<close> returns.\<close>

definition detectTaskCounter :: "TFile list \<Rightarrow> world \<Rightarrow> error option \<times> world" where
  "detectTaskCounter files w =
     (let maxNum = detectTaskCounter_loop (rootFolder (settings w)) files (Num 0) in
      saveSettings (w\<lparr>settings := (settings w)\<lparr>taskCounter := plusOne maxNum\<rparr>\<rparr>))"

section \<open>Vocabulary of the properties\<close>

text \<open>The value \<open>processFile\<close> reads from the metadata snapshot under \<open>propertyName\<close>:
  \<open>None\<close> when there is no snapshot, no frontmatter in it, or no such property.\<close>

definition snapshotValue :: "world \<Rightarrow> TFile \<Rightarrow> fmval option" where
  "snapshotValue w file =
     (case getFileCache w file of
        None \<Rightarrow> None
      | Some fileCache \<Rightarrow>
          (case frontmatter fileCache of
             None \<Rightarrow> None
           | Some fm \<Rightarrow> readProperty fm (propertyName (settings w))))"

text \<open>The host calls attempted between two worlds.\<close>

definition newCalls :: "world \<Rightarrow> world \<Rightarrow> (hostcall \<times> bool) list" where
  "newCalls w w' = drop (length (calls w)) (calls w')"

text \<open>The same calls, each with the guard set it was awaited under.\<close>

definition newSeen :: "world \<Rightarrow> world \<Rightarrow> (hostcall \<times> string set) list" where
  "newSeen w w' = drop (length (guardSeen w)) (guardSeen w')"

text \<open>The console lines written between two worlds.\<close>

definition newLines :: "world \<Rightarrow> world \<Rightarrow> console_line list" where
  "newLines w w' = drop (length (console w)) (console w')"

text \<open>The three components of a result of \<open>processFile\<close>.\<close>

definition thrown :: "error option \<times> world \<times> TFile \<Rightarrow> error option" where
  "thrown res = fst res"

definition worldAfter :: "error option \<times> world \<times> TFile \<Rightarrow> world" where
  "worldAfter res = fst (snd res)"

definition fileAfter :: "error option \<times> world \<times> TFile \<Rightarrow> TFile" where
  "fileAfter res = snd (snd res)"

text \<open>The extended variant passes the guard, the scope check and the settings check,
  classifies the document by the boolean \<open>b\<close> with target container \<open>t\<close>, and the document
  is not in \<open>t\<close> yet.\<close>

definition reachesMove :: "world \<Rightarrow> TFile \<Rightarrow> bool \<Rightarrow> string \<Rightarrow> bool" where
  "reachesMove w file b t =
     (path file \<notin> processing w
      \<and> (rootFolder (settings w) = []
          \<or> startsWith (path file) (rootFolder (settings w) @ ''/''))
      \<and> propertyName (settings w) \<noteq> []
      \<and> buildPath (rootFolder (settings w)) (trueFolder (settings w)) \<noteq> []
      \<and> buildPath (rootFolder (settings w)) (falseFolder (settings w)) \<noteq> []
      \<and> snapshotValue w file = Some (VBool b)
      \<and> t = (if b then buildPath (rootFolder (settings w)) (trueFolder (settings w))
              else buildPath (rootFolder (settings w)) (falseFolder (settings w)))
      \<and> (case parent file of None \<Rightarrow> [] | Some p \<Rightarrow> p) \<noteq> t)"

text \<open>The same for the basic variant.\<close>

definition reachesMove_basic :: "world \<Rightarrow> TFile \<Rightarrow> bool \<Rightarrow> string \<Rightarrow> bool" where
  "reachesMove_basic w file b t =
     (path file \<notin> processing w
      \<and> propertyName (settings w) \<noteq> []
      \<and> trueFolder (settings w) \<noteq> []
      \<and> falseFolder (settings w) \<noteq> []
      \<and> snapshotValue w file = Some (VBool b)
      \<and> t = (if b then trueFolder (settings w) else falseFolder (settings w))
      \<and> (case parent file of None \<Rightarrow> [] | Some p \<Rightarrow> p) \<noteq> t)"

text \<open>The values \<open>current\<close> takes in the loop of \<open>ensureFolder\<close>, in order: the paths
  of the target's ancestors, then of the target.\<close>

fun currents :: "string \<Rightarrow> string list \<Rightarrow> string list" where
  "currents current [] = []"
| "currents current (part # parts) =
     (let current' = (if current \<noteq> [] then current @ ''/'' @ part else part)
      in current' # currents current' parts)"

text \<open>The paths \<open>ensureFolder\<close> looks up for a target container, in order.\<close>

definition folderPaths :: "string \<Rightarrow> string list" where
  "folderPaths t = currents [] (split_slash t)"

text \<open>The documents in scope: under the root folder, or all when the root is empty.\<close>

definition inScope :: "string \<Rightarrow> TFile \<Rightarrow> bool" where
  "inScope root file = (root = [] \<or> startsWith (path file) (root @ ''/''))"

text \<open>The number of the task identifier a name carries, if it carries one.\<close>

definition taskNumber :: "string \<Rightarrow> nat option" where
  "taskNumber nm = map_option decimalValue (matchTask nm)"

text \<open>The task numbers of the documents in scope.\<close>

definition taskNumbers :: "string \<Rightarrow> TFile list \<Rightarrow> nat list" where
  "taskNumbers root files =
     List.map_filter (\<lambda>file. if inScope root file then taskNumber (name file) else None) files"

text \<open>The counter the specification asks for: one above the highest number, or 1.\<close>

definition expectedCounter :: "string \<Rightarrow> TFile list \<Rightarrow> nat" where
  "expectedCounter root files =
     (if taskNumbers root files = [] then 1 else Max (set (taskNumbers root files)) + 1)"

text \<open>
  An ISO-8601 timestamp with explicit offset: the calendar date \<open>yyyy-MM-dd\<close>, the letter
  \<open>T\<close>, the time of day \<open>HH:mm:ss\<close>, and then \<open>Z\<close> or a signed offset \<open>+hh:mm\<close> or
  \<open>-hh:mm\<close>. The recogniser reads the string from left to right; \<open>takeDigits k\<close> takes
  exactly \<open>k\<close> digits off the front, \<open>takeChar c\<close> the character \<open>c\<close>.
\<close>

definition takeDigits :: "nat \<Rightarrow> string \<Rightarrow> string option" where
  "takeDigits k s =
     (if k \<le> length s \<and> list_all isDigit (take k s) then Some (drop k s) else None)"

definition takeChar :: "char \<Rightarrow> string \<Rightarrow> string option" where
  "takeChar c s = (case s of [] \<Rightarrow> None | x # r \<Rightarrow> if x = c then Some r else None)"

definition isOffsetDesignator :: "string \<Rightarrow> bool" where
  "isOffsetDesignator z =
     (z = ''Z''
      \<or> (case z of
            [] \<Rightarrow> False
          | sg # r \<Rightarrow>
              (sg = CHR ''+'' \<or> sg = CHR ''-'')
              \<and> Option.bind (Option.bind (takeDigits 2 r) (takeChar (CHR '':'')))
                   (takeDigits 2) = Some []))"

definition isIso8601Offset :: "string \<Rightarrow> bool" where
  "isIso8601Offset s =
     (case foldl Option.bind (Some s)
             [takeDigits 4, takeChar (CHR ''-''), takeDigits 2, takeChar (CHR ''-''),
              takeDigits 2, takeChar (CHR ''T''), takeDigits 2, takeChar (CHR '':''),
              takeDigits 2, takeChar (CHR '':''), takeDigits 2] of
        None \<Rightarrow> False
      | Some z \<Rightarrow> isOffsetDesignator z)"

text \<open>What any reading of a clock satisfies: a month, a day of the month, a time of day,
  and an offset of less than a day.\<close>

definition validClock :: "LocalDateTime \<Rightarrow> bool" where
  "validClock t =
     (1 \<le> month t \<and> month t \<le> 12 \<and> 1 \<le> day t \<and> day t \<le> 31 \<and> hours t < 24
      \<and> minutes t < 60 \<and> seconds t < 60 \<and> \<bar>offsetMinutes t\<bar> < 24 * 60)"

section \<open>Vocabulary of the proofs\<close>

text \<open>Everything but storage, console and call record is the same in both worlds.\<close>

definition sameConfig :: "world \<Rightarrow> world \<Rightarrow> bool" where
  "sameConfig w w' =
     (settings w' = settings w \<and> processing w' = processing w
      \<and> metadataCache w' = metadataCache w \<and> hostFails w' = hostFails w
      \<and> clock w' = clock w)"

text \<open>The call record has only grown, a call that threw is the error \<open>r\<close>, and an
  error comes from a call that threw.\<close>

definition traced :: "world \<Rightarrow> error option \<Rightarrow> world \<Rightarrow> bool" where
  "traced w r w' =
     (\<exists>cs. calls w' = calls w @ cs
        \<and> (\<forall>c. (c, True) \<in> set cs \<longrightarrow> r = Some (HostError c))
        \<and> (r \<noteq> None \<longrightarrow> (\<exists>c. (c, True) \<in> set cs)))"

text \<open>The call record has only grown, by calls that satisfy \<open>P\<close>.\<close>

definition onlyCalls :: "(hostcall \<Rightarrow> bool) \<Rightarrow> world \<Rightarrow> world \<Rightarrow> bool" where
  "onlyCalls P w w' = (\<exists>cs. calls w' = calls w @ cs \<and> (\<forall>x \<in> set cs. P (fst x)))"

text \<open>Every new call was awaited under the guard set of the first world.\<close>

definition seenUnder :: "world \<Rightarrow> world \<Rightarrow> bool" where
  "seenUnder w w' =
     (\<exists>cs. calls w' = calls w @ cs
        \<and> guardSeen w' = guardSeen w @ map (\<lambda>x. (fst x, processing w)) cs)"

text \<open>A storage that differs from another by new folders only.\<close>

definition grows :: "(string \<rightharpoonup> TAbstractFile) \<Rightarrow> (string \<rightharpoonup> TAbstractFile) \<Rightarrow> bool" where
  "grows v v' = (\<forall>p. v' p = v p \<or> (v p = None \<and> v' p = Some Folder))"

text \<open>The frontmatter after the patch of step 2, for the classification value \<open>b\<close>.\<close>

definition patched :: "world \<Rightarrow> bool \<Rightarrow> FrontMatter \<Rightarrow> FrontMatter" where
  "patched w b fm =
     (if b then stampCompletedDate (completedDatePropertyName (settings w)) (clock w) fm
      else clearCompletedDate (completedDatePropertyName (settings w)) fm)"

text \<open>What creating the target container leaves behind: nothing but new folders in
  storage and \<open>createFolder\<close> calls in the record.\<close>

definition prepared :: "world \<Rightarrow> error option \<Rightarrow> world \<Rightarrow> bool" where
  "prepared w r w1 =
     (sameConfig w w1 \<and> traced w r w1 \<and> console w1 = console w
      \<and> grows (vault w) (vault w1) \<and> onlyCalls (\<lambda>c. \<exists>q. c = CreateFolder q) w w1
      \<and> seenUnder w w1)"

text \<open>The four ways the part of \<open>processFile\<close> after the classification ends:
  already in place, target is a file (basic variant), creating the container threw, or the
  rename was reached.\<close>

definition moveOutcome ::
  "world \<Rightarrow> TFile \<Rightarrow> string \<Rightarrow> bool \<Rightarrow> string \<Rightarrow> error option \<Rightarrow> world \<Rightarrow> TFile \<Rightarrow> bool" where
  "moveOutcome w file op b t r w' file' =
     ((w' = w \<and> file' = file \<and> r = None
         \<and> (case parent file of None \<Rightarrow> [] | Some p \<Rightarrow> p) = t)
      \<or> (w' = w\<lparr>console := console w @ [Error_TargetIsFile t]\<rparr> \<and> file' = file \<and> r = None
           \<and> (\<exists>fm. vault w t = Some (Document fm)))
      \<or> (prepared w r w' \<and> file' = file \<and> r \<noteq> None)
      \<or> (\<exists>w1. prepared w None w1
            \<and> processFile_rename w1 file op b (t @ ''/'' @ name file) = (r, w', file')))"

text \<open>The three ways the \<open>try\<close> block ends: an early return, the warning, or a
  classified document.\<close>

definition tryOutcome ::
  "world \<Rightarrow> TFile \<Rightarrow> string \<Rightarrow> string \<Rightarrow> string \<Rightarrow> error option \<Rightarrow> world \<Rightarrow> TFile \<Rightarrow> bool" where
  "tryOutcome w file op tT tF r w' file' =
     ((w' = w \<and> file' = file \<and> r = None)
      \<or> (w' = w\<lparr>console := console w @ [Warn_SettingsIncomplete]\<rparr> \<and> file' = file \<and> r = None)
      \<or> (\<exists>b. snapshotValue w file = Some (VBool b)
            \<and> moveOutcome w file op b (if b then tT else tF) r w' file'))"

text \<open>What a call leaves of the storage: every other entry, new folders apart, and of
  the document every frontmatter key but \<open>completedDatePropertyName\<close>.\<close>

definition frame :: "world \<Rightarrow> TFile \<Rightarrow> world \<Rightarrow> TFile \<Rightarrow> bool" where
  "frame w file w' file' =
     ((\<forall>p x. p \<noteq> path file \<and> vault w p = Some x \<longrightarrow> vault w' p = Some x)
      \<and> (\<forall>p. vault w p = None \<and> p \<noteq> path file'
            \<longrightarrow> vault w' p = None \<or> vault w' p = Some Folder)
      \<and> (\<forall>fm. vault w (path file) = Some (Document fm) \<longrightarrow>
            (\<exists>fm'. vault w' (path file') = Some (Document fm')
               \<and> (\<forall>k. k \<noteq> completedDatePropertyName (settings w) \<longrightarrow> fm' k = fm k)))
      \<and> (path file' \<noteq> path file \<longrightarrow> vault w' (path file) = None))"

text \<open>What a run of the \<open>try\<close> block does, \<open>np\<close> being the path the document
  would move to.\<close>

definition effect :: "world \<Rightarrow> TFile \<Rightarrow> string \<Rightarrow> error option \<Rightarrow> world \<Rightarrow> TFile \<Rightarrow> bool" where
  "effect w file np r w' file' =
     (sameConfig w w' \<and> traced w r w'
      \<and> onlyCalls (\<lambda>c. (\<exists>q. c = CreateFolder q) \<or> c = Rename (path file) np
                       \<or> c = ProcessFrontMatter np) w w'
      \<and> frame w file w' file' \<and> seenUnder w w')"

text \<open>The path the document is moved to, when the snapshot classifies it.\<close>

definition destination :: "world \<Rightarrow> TFile \<Rightarrow> string \<Rightarrow> string \<Rightarrow> string" where
  "destination w file tT tF =
     (if snapshotValue w file = Some (VBool True) then tT else tF) @ ''/'' @ name file"

text \<open>The error line the \<open>catch\<close> clause writes for the outcome \<open>r\<close> of the \<open>try\<close> block.\<close>

definition logged :: "error option \<Rightarrow> string \<Rightarrow> console_line list" where
  "logged r originalPath =
     (case r of None \<Rightarrow> [] | Some e \<Rightarrow> [Error_Processing originalPath e])"

section \<open>Example worlds\<close>

text \<open>A task \<open>t.md\<close> in the root folder, checked, in a vault that has no archive folder
  yet; completion dates are switched on.\<close>

definition exampleFile :: TFile where
  "exampleFile = \<lparr>path = ''taskflow/t.md'', name = ''t.md'', parent = Some ''taskflow''\<rparr>"

definition exampleWorld :: world where
  "exampleWorld =
     \<lparr>settings = DEFAULT_SETTINGS\<lparr>enableCompletedDate := True\<rparr>,
      processing = {},
      vault = [''taskflow'' \<mapsto> Folder,
               ''taskflow/t.md'' \<mapsto> Document [checkmark \<mapsto> VBool True]],
      metadataCache =
        [''taskflow/t.md'' \<mapsto> \<lparr>frontmatter = Some [checkmark \<mapsto> VBool True]\<rparr>],
      console = [], calls = [], guardSeen = [], hostFails = (\<lambda>c. False),
      clock = \<lparr>year = 2026, month = 1, day = 1, hours = 9, minutes = 0, seconds = 0,
               offsetMinutes = 60\<rparr>\<rparr>"

text \<open>A file outside the root folder.\<close>

definition outsideFile :: TFile where
  "outsideFile = \<lparr>path = ''notes/t.md'', name = ''t.md'', parent = Some ''notes''\<rparr>"

text \<open>The same world while the task is being processed, and with a host that rejects
  the rename.\<close>

definition heldWorld :: world where
  "heldWorld = exampleWorld\<lparr>processing := {''taskflow/t.md''}\<rparr>"

definition failingWorld :: world where
  "failingWorld =
     exampleWorld\<lparr>hostFails := (\<lambda>c. c = Rename ''taskflow/t.md'' ''taskflow/archive/t.md'')\<rparr>"

text \<open>The same world with the string \<open>true\<close> under the property in the metadata snapshot.\<close>

definition stringWorld :: world where
  "stringWorld =
     exampleWorld\<lparr>metadataCache :=
       [''taskflow/t.md'' \<mapsto> \<lparr>frontmatter = Some [checkmark \<mapsto> VStr ''true'']\<rparr>]\<rparr>"

text \<open>The same world with an empty \<open>propertyName\<close>.\<close>

definition unnamedWorld :: world where
  "unnamedWorld = exampleWorld\<lparr>settings := (settings exampleWorld)\<lparr>propertyName := []\<rparr>\<rparr>"

text \<open>The same world with the boolean \<open>false\<close> under the completion date of the task.\<close>

definition falseDateWorld :: world where
  "falseDateWorld =
     exampleWorld\<lparr>vault :=
       [''taskflow'' \<mapsto> Folder,
        ''taskflow/t.md'' \<mapsto>
          Document [checkmark \<mapsto> VBool True, ''completed_date'' \<mapsto> VBool False]]\<rparr>"

text \<open>The example world with a file where the archive folder should be, on a host that
  rejects a rename into it.\<close>

definition archiveIsFileWorld :: world where
  "archiveIsFileWorld =
     failingWorld\<lparr>vault :=
       [''taskflow'' \<mapsto> Folder, ''taskflow/archive'' \<mapsto> Document Map.empty,
        ''taskflow/t.md'' \<mapsto> Document [checkmark \<mapsto> VBool True]]\<rparr>"

text \<open>An unchecked task in the archive, under the default settings, whose \<open>falseFolder\<close>
  is empty.\<close>

definition archivedFile :: TFile where
  "archivedFile =
     \<lparr>path = ''taskflow/archive/t.md'', name = ''t.md'', parent = Some ''taskflow/archive''\<rparr>"

definition archivedWorld :: world where
  "archivedWorld =
     \<lparr>settings = DEFAULT_SETTINGS,
      processing = {},
      vault = [''taskflow'' \<mapsto> Folder, ''taskflow/archive'' \<mapsto> Folder,
               ''taskflow/archive/t.md'' \<mapsto> Document [checkmark \<mapsto> VBool False]],
      metadataCache =
        [''taskflow/archive/t.md'' \<mapsto> \<lparr>frontmatter = Some [checkmark \<mapsto> VBool False]\<rparr>],
      console = [], calls = [], guardSeen = [], hostFails = (\<lambda>c. False),
      clock = \<lparr>year = 2026, month = 1, day = 1, hours = 9, minutes = 0, seconds = 0,
               offsetMinutes = 60\<rparr>\<rparr>"

text \<open>A checked task that is in the archive already.\<close>

definition inPlaceFile :: TFile where
  "inPlaceFile =
     \<lparr>path = ''taskflow/archive/t.md'', name = ''t.md'', parent = Some ''taskflow/archive''\<rparr>"

definition inPlaceWorld :: world where
  "inPlaceWorld =
     archivedWorld\<lparr>metadataCache :=
       [''taskflow/archive/t.md'' \<mapsto> \<lparr>frontmatter = Some [checkmark \<mapsto> VBool True]\<rparr>]\<rparr>"

text \<open>A vault of the basic variant in which the container of completed documents is
  missing, and one in which a file has its name.\<close>

definition inboxFile :: TFile where
  "inboxFile = \<lparr>path = ''Inbox/t.md'', name = ''t.md'', parent = Some ''Inbox''\<rparr>"

definition inboxWorld :: world where
  "inboxWorld =
     \<lparr>settings = DEFAULT_SETTINGS\<lparr>rootFolder := [], propertyName := ''done'',
                   trueFolder := ''Done'', falseFolder := ''Inbox''\<rparr>,
      processing = {},
      vault = [''Inbox'' \<mapsto> Folder, ''Inbox/t.md'' \<mapsto> Document [''done'' \<mapsto> VBool True]],
      metadataCache = [''Inbox/t.md'' \<mapsto> \<lparr>frontmatter = Some [''done'' \<mapsto> VBool True]\<rparr>],
      console = [], calls = [], guardSeen = [], hostFails = (\<lambda>c. False),
      clock = \<lparr>year = 2026, month = 1, day = 1, hours = 9, minutes = 0, seconds = 0,
               offsetMinutes = 60\<rparr>\<rparr>"

definition doneIsFileWorld :: world where
  "doneIsFileWorld =
     inboxWorld\<lparr>vault :=
       [''Inbox'' \<mapsto> Folder, ''Done'' \<mapsto> Document Map.empty,
        ''Inbox/t.md'' \<mapsto> Document [''done'' \<mapsto> VBool True]]\<rparr>"

text \<open>Four files: two tasks under the root folder, a file without identifier, and a task
  outside the root folder.\<close>

definition taskFiles :: "TFile list" where
  "taskFiles =
     [\<lparr>path = ''taskflow/[TASK-007] write.md'', name = ''[TASK-007] write.md'',
       parent = Some ''taskflow''\<rparr>,
      \<lparr>path = ''taskflow/archive/[TASK-012] read.md'', name = ''[TASK-012] read.md'',
       parent = Some ''taskflow/archive''\<rparr>,
      \<lparr>path = ''taskflow/readme.md'', name = ''readme.md'', parent = Some ''taskflow''\<rparr>,
      \<lparr>path = ''notes/[TASK-099] other.md'', name = ''[TASK-099] other.md'',
       parent = Some ''notes''\<rparr>]"

text \<open>The example world with a clock that
  reads the first day of the year 10000.\<close>

definition lateWorld :: world where
  "lateWorld = exampleWorld\<lparr>clock := (clock exampleWorld)\<lparr>year := 10000\<rparr>\<rparr>"

text \<open>A task whose number is \<open>2^53 + 1\<close>, which is not a double.\<close>

definition bigFiles :: "TFile list" where
  "bigFiles =
     [\<lparr>path = ''taskflow/[TASK-9007199254740993] big.md'',
       name = ''[TASK-9007199254740993] big.md'', parent = Some ''taskflow''\<rparr>]"

section \<open>The host calls and the loop of \<open>ensureFolder\<close>\<close>

lemma guard_restore: "p \<notin> A \<Longrightarrow> insert p A - {p} = A"
  by auto

lemma sameConfig_refl: "sameConfig w w"
  by (simp add: sameConfig_def)

lemma sameConfig_trans: "sameConfig w w1 \<Longrightarrow> sameConfig w1 w2 \<Longrightarrow> sameConfig w w2"
  by (simp add: sameConfig_def)

lemma traced_refl: "traced w None w"
  by (simp add: traced_def)

lemma traced_trans:
  assumes "traced w None w1" and "traced w1 r w2"
  shows "traced w r w2"
proof -
  from assms(1) obtain cs where 1: "calls w1 = calls w @ cs" "\<forall>c. (c, True) \<notin> set cs"
    by (auto simp: traced_def)
  from assms(2) obtain cs' where 2: "calls w2 = calls w1 @ cs'"
    "\<forall>c. (c, True) \<in> set cs' \<longrightarrow> r = Some (HostError c)"
    "r \<noteq> None \<longrightarrow> (\<exists>c. (c, True) \<in> set cs')"
    unfolding traced_def by blast
  have "calls w2 = calls w @ (cs @ cs')" using 1 2 by simp
  moreover have "\<forall>c. (c, True) \<in> set (cs @ cs') \<longrightarrow> r = Some (HostError c)"
    using 1 2 by simp
  moreover have "r \<noteq> None \<longrightarrow> (\<exists>c. (c, True) \<in> set (cs @ cs'))"
    using 2(3) by auto
  ultimately show ?thesis unfolding traced_def by blast
qed

lemma onlyCalls_refl: "onlyCalls P w w"
  by (simp add: onlyCalls_def)

lemma onlyCalls_trans: "onlyCalls P w w1 \<Longrightarrow> onlyCalls P w1 w2 \<Longrightarrow> onlyCalls P w w2"
  by (auto simp: onlyCalls_def)

lemma onlyCalls_mono: "onlyCalls P w w' \<Longrightarrow> (\<And>c. P c \<Longrightarrow> Q c) \<Longrightarrow> onlyCalls Q w w'"
  by (auto simp: onlyCalls_def)

lemma seenUnder_refl: "seenUnder w w"
  by (simp add: seenUnder_def)

lemma seenUnder_trans:
  assumes "seenUnder w w1" and "processing w1 = processing w" and "seenUnder w1 w2"
  shows "seenUnder w w2"
proof -
  from assms(1) obtain cs where 1: "calls w1 = calls w @ cs"
    "guardSeen w1 = guardSeen w @ map (\<lambda>x. (fst x, processing w)) cs"
    unfolding seenUnder_def by blast
  from assms(3) obtain cs' where 2: "calls w2 = calls w1 @ cs'"
    "guardSeen w2 = guardSeen w1 @ map (\<lambda>x. (fst x, processing w1)) cs'"
    unfolding seenUnder_def by blast
  have "calls w2 = calls w @ (cs @ cs')" using 1 2 by simp
  moreover have "guardSeen w2 = guardSeen w @ map (\<lambda>x. (fst x, processing w)) (cs @ cs')"
    using 1 2 assms(2) by simp
  ultimately show ?thesis unfolding seenUnder_def by blast
qed

lemma grows_refl: "grows v v"
  by (simp add: grows_def)

lemma grows_trans: "grows v v1 \<Longrightarrow> grows v1 v2 \<Longrightarrow> grows v v2"
  unfolding grows_def by metis

lemma createFolder_props:
  assumes "createFolder w p = (r, w')"
  shows "sameConfig w w'" and "traced w r w'" and "console w' = console w"
    and "grows (vault w) (vault w')" and "onlyCalls (\<lambda>c. \<exists>q. c = CreateFolder q) w w'"
    and "seenUnder w w'"
  using assms
  by (auto simp: createFolder_def sameConfig_def traced_def grows_def onlyCalls_def
      seenUnder_def Let_def split: if_splits)

lemma ensureFolder_loop_props:
  "ensureFolder_loop w current parts = (r, w') \<Longrightarrow>
     sameConfig w w' \<and> traced w r w' \<and> console w' = console w
     \<and> grows (vault w) (vault w') \<and> onlyCalls (\<lambda>c. \<exists>q. c = CreateFolder q) w w'
     \<and> seenUnder w w'"
proof (induction parts arbitrary: w current)
  case Nil
  then show ?case
    by (simp add: sameConfig_refl traced_refl grows_refl onlyCalls_refl seenUnder_refl)
next
  case (Cons part parts)
  define c where "c = (if current \<noteq> [] then current @ ''/'' @ part else part)"
  show ?case
  proof (cases "vault w c")
    case (Some existing)
    with Cons.prems have "ensureFolder_loop w c parts = (r, w')"
      by (simp add: c_def getAbstractFileByPath_def)
    then show ?thesis by (rule Cons.IH)
  next
    case None
    obtain r1 w1 where cf: "createFolder w c = (r1, w1)" by (cases "createFolder w c")
    note p1 = createFolder_props [OF cf]
    show ?thesis
    proof (cases r1)
      case (Some e)
      with Cons.prems None cf have "r = r1" "w' = w1"
        by (simp_all add: c_def getAbstractFileByPath_def)
      with p1 show ?thesis by simp
    next
      case rNone: None
      with Cons.prems None cf have "ensureFolder_loop w1 c parts = (r, w')"
        by (simp add: c_def getAbstractFileByPath_def)
      from Cons.IH [OF this] have ih: "sameConfig w1 w'" "traced w1 r w'" "console w' = console w1"
        "grows (vault w1) (vault w')" "onlyCalls (\<lambda>c. \<exists>q. c = CreateFolder q) w1 w'"
        "seenUnder w1 w'"
        by simp_all
      from p1(1) have "processing w1 = processing w" by (simp add: sameConfig_def)
      from seenUnder_trans [OF p1(6) this ih(6)] have "seenUnder w w'" .
      with ih p1 rNone show ?thesis
        by (auto intro: sameConfig_trans traced_trans grows_trans onlyCalls_trans)
    qed
  qed
qed

lemma ensureFolder_props:
  "ensureFolder w t = (r, w') \<Longrightarrow>
     sameConfig w w' \<and> traced w r w' \<and> console w' = console w
     \<and> grows (vault w) (vault w') \<and> onlyCalls (\<lambda>c. \<exists>q. c = CreateFolder q) w w'
     \<and> seenUnder w w'"
  by (auto simp: ensureFolder_def sameConfig_refl traced_refl grows_refl onlyCalls_refl
      seenUnder_refl dest: ensureFolder_loop_props split: if_splits)

lemma processFile_rename_cases:
  assumes "processFile_rename w file op b np = (r, w', file')"
  shows "sameConfig w w'" and "traced w r w'"
    and "onlyCalls (\<lambda>c. c = Rename (path file) np \<or> c = ProcessFrontMatter np) w w'"
    and "(vault w' = vault w \<and> file' = file \<and> r \<noteq> None \<and> console w' = console w)
       \<or> (\<exists>fm. vault w (path file) = Some (Document fm) \<and> vault w np = None
            \<and> path file' = np
            \<and> console w' = console w @ [Log_Moved op np]
            \<and> vault w' = (vault w)(path file := None, np \<mapsto> Document
                 (if enableCompletedDate (settings w)
                     \<and> completedDatePropertyName (settings w) \<noteq> [] \<and> r = None
                  then patched w b fm else fm)))"
    and "seenUnder w w'"
  using assms
  by (auto simp: processFile_rename_def rename_def processFile_stamp_def processFrontMatter_def
      patched_def sameConfig_def traced_def onlyCalls_def seenUnder_def Let_def
      split: if_splits option.splits TAbstractFile.splits prod.splits)

section \<open>The outcomes of the \<open>try\<close> block\<close>

lemma prepared_refl: "prepared w None w"
  by (simp add: prepared_def sameConfig_refl traced_refl grows_refl onlyCalls_refl
      seenUnder_refl)

lemma processFile_move_outcome:
  "processFile_move w file op b t = (r, w', file') \<Longrightarrow> moveOutcome w file op b t r w' file'"
proof -
  assume a: "processFile_move w file op b t = (r, w', file')"
  show ?thesis
  proof (cases "(case parent file of None \<Rightarrow> [] | Some p \<Rightarrow> p) = t")
    case True
    with a show ?thesis by (simp add: processFile_move_def moveOutcome_def)
  next
    case False
    obtain r1 w1 where ef: "ensureFolder w t = (r1, w1)" by (cases "ensureFolder w t")
    from ensureFolder_props [OF ef] have p: "prepared w r1 w1" by (simp add: prepared_def)
    show ?thesis
    proof (cases r1)
      case None
      with a False ef
      have "processFile_rename w1 file op b (t @ ''/'' @ name file) = (r, w', file')"
        by (simp add: processFile_move_def Let_def)
      with p None show ?thesis unfolding moveOutcome_def by blast
    next
      case (Some e)
      with a False ef have "r = r1" "w' = w1" "file' = file"
        by (simp_all add: processFile_move_def Let_def)
      with p Some show ?thesis by (simp add: moveOutcome_def)
    qed
  qed
qed

lemma processFile_basic_move_outcome:
  "processFile_basic_move w file op b t = (r, w', file') \<Longrightarrow>
     moveOutcome w file op b t r w' file'"
proof -
  assume a: "processFile_basic_move w file op b t = (r, w', file')"
  show ?thesis
  proof (cases "(case parent file of None \<Rightarrow> [] | Some p \<Rightarrow> p) = t")
    case True
    with a show ?thesis by (simp add: processFile_basic_move_def moveOutcome_def)
  next
    case False
    show ?thesis
    proof (cases "vault w t")
      case None
      obtain r1 w1 where cf: "createFolder w t = (r1, w1)" by (cases "createFolder w t")
      from createFolder_props [OF cf] have p: "prepared w r1 w1" by (simp add: prepared_def)
      show ?thesis
      proof (cases r1)
        case rNone: None
        with a False None cf
        have "processFile_rename w1 file op b (t @ ''/'' @ name file) = (r, w', file')"
          by (simp add: processFile_basic_move_def getAbstractFileByPath_def Let_def)
        with p rNone show ?thesis unfolding moveOutcome_def by blast
      next
        case (Some e)
        with a False None cf have "r = r1" "w' = w1" "file' = file"
          by (simp_all add: processFile_basic_move_def getAbstractFileByPath_def Let_def)
        with p Some show ?thesis by (simp add: moveOutcome_def)
      qed
    next
      case (Some x)
      show ?thesis
      proof (cases x)
        case Folder
        with a False Some
        have "processFile_rename w file op b (t @ ''/'' @ name file) = (r, w', file')"
          by (simp add: processFile_basic_move_def getAbstractFileByPath_def Let_def)
        with prepared_refl show ?thesis unfolding moveOutcome_def by blast
      next
        case (Document fm)
        with a False Some show ?thesis
          by (simp add: processFile_basic_move_def getAbstractFileByPath_def Let_def
              moveOutcome_def)
      qed
    qed
  qed
qed

lemma processFile_try_unfold:
  "processFile_try w file op =
     (if rootFolder (settings w) \<noteq> []
         \<and> \<not> startsWith (path file) (rootFolder (settings w) @ ''/'')
      then (None, w, file)
      else if propertyName (settings w) = []
         \<or> buildPath (rootFolder (settings w)) (trueFolder (settings w)) = []
         \<or> buildPath (rootFolder (settings w)) (falseFolder (settings w)) = []
      then (None, w\<lparr>console := console w @ [Warn_SettingsIncomplete]\<rparr>, file)
      else if snapshotValue w file = Some (VBool True)
      then processFile_move w file op True
             (buildPath (rootFolder (settings w)) (trueFolder (settings w)))
      else if snapshotValue w file = Some (VBool False)
      then processFile_move w file op False
             (buildPath (rootFolder (settings w)) (falseFolder (settings w)))
      else (None, w, file))"
  by (simp add: processFile_try_def snapshotValue_def Let_def split: option.splits)

lemma processFile_basic_try_unfold:
  "processFile_basic_try w file op =
     (if propertyName (settings w) = [] \<or> trueFolder (settings w) = []
         \<or> falseFolder (settings w) = []
      then (None, w\<lparr>console := console w @ [Warn_SettingsIncomplete]\<rparr>, file)
      else if snapshotValue w file = Some (VBool True)
      then processFile_basic_move w file op True (trueFolder (settings w))
      else if snapshotValue w file = Some (VBool False)
      then processFile_basic_move w file op False (falseFolder (settings w))
      else (None, w, file))"
  by (simp add: processFile_basic_try_def snapshotValue_def Let_def split: option.splits)

lemma processFile_try_outcome:
  assumes a: "processFile_try w file op = (r, w', file')"
  shows "tryOutcome w file op (buildPath (rootFolder (settings w)) (trueFolder (settings w)))
       (buildPath (rootFolder (settings w)) (falseFolder (settings w))) r w' file'"
proof -
  let ?tT = "buildPath (rootFolder (settings w)) (trueFolder (settings w))"
  let ?tF = "buildPath (rootFolder (settings w)) (falseFolder (settings w))"
  from a [unfolded processFile_try_unfold] consider
    (same) "w' = w" "file' = file" "r = None"
    | (warn) "w' = w\<lparr>console := console w @ [Warn_SettingsIncomplete]\<rparr>" "file' = file"
        "r = None"
    | (mvT) "snapshotValue w file = Some (VBool True)"
        "processFile_move w file op True ?tT = (r, w', file')"
    | (mvF) "snapshotValue w file = Some (VBool False)"
        "processFile_move w file op False ?tF = (r, w', file')"
    by (simp split: if_splits)
  then show ?thesis
  proof cases
    case same
    then show ?thesis by (simp add: tryOutcome_def)
  next
    case warn
    then show ?thesis by (simp add: tryOutcome_def)
  next
    case mvT
    from processFile_move_outcome [OF mvT(2)] mvT(1) show ?thesis
      unfolding tryOutcome_def by (intro disjI2 exI [of _ True]) simp
  next
    case mvF
    from processFile_move_outcome [OF mvF(2)] mvF(1) show ?thesis
      unfolding tryOutcome_def by (intro disjI2 exI [of _ False]) simp
  qed
qed

lemma processFile_basic_try_outcome:
  assumes a: "processFile_basic_try w file op = (r, w', file')"
  shows "tryOutcome w file op (trueFolder (settings w)) (falseFolder (settings w)) r w' file'"
proof -
  from a [unfolded processFile_basic_try_unfold] consider
    (same) "w' = w" "file' = file" "r = None"
    | (warn) "w' = w\<lparr>console := console w @ [Warn_SettingsIncomplete]\<rparr>" "file' = file"
        "r = None"
    | (mvT) "snapshotValue w file = Some (VBool True)"
        "processFile_basic_move w file op True (trueFolder (settings w)) = (r, w', file')"
    | (mvF) "snapshotValue w file = Some (VBool False)"
        "processFile_basic_move w file op False (falseFolder (settings w)) = (r, w', file')"
    by (simp split: if_splits)
  then show ?thesis
  proof cases
    case same
    then show ?thesis by (simp add: tryOutcome_def)
  next
    case warn
    then show ?thesis by (simp add: tryOutcome_def)
  next
    case mvT
    from processFile_basic_move_outcome [OF mvT(2)] mvT(1) show ?thesis
      unfolding tryOutcome_def by (intro disjI2 exI [of _ True]) simp
  next
    case mvF
    from processFile_basic_move_outcome [OF mvF(2)] mvF(1) show ?thesis
      unfolding tryOutcome_def by (intro disjI2 exI [of _ False]) simp
  qed
qed

lemma patched_other:
  "k \<noteq> completedDatePropertyName (settings w) \<Longrightarrow> patched w b fm k = fm k"
  by (simp add: patched_def stampCompletedDate_def clearCompletedDate_def)

lemma grows_Some: "grows v v1 \<Longrightarrow> v p = Some x \<Longrightarrow> v1 p = Some x"
  unfolding grows_def by (metis option.distinct(1))

lemma grows_None: "grows v v1 \<Longrightarrow> v p = None \<Longrightarrow> v1 p = None \<or> v1 p = Some Folder"
  unfolding grows_def by metis

lemma grows_frame: "grows (vault w) (vault w') \<Longrightarrow> frame w file w' file"
  unfolding frame_def by (auto dest: grows_Some grows_None)

lemma rename_frame:
  assumes p: "prepared w None w1"
    and rn: "processFile_rename w1 file op b np = (r, w', file')"
  shows "frame w file w' file'"
proof -
  from p have g: "grows (vault w) (vault w1)" and s: "settings w1 = settings w"
    by (simp_all add: prepared_def sameConfig_def)
  from processFile_rename_cases(4) [OF rn]
  consider (same) "vault w' = vault w1" "file' = file"
    | (moved) fm fm' where "vault w1 (path file) = Some (Document fm)" "vault w1 np = None"
        "path file' = np" "vault w' = (vault w1)(path file := None, np \<mapsto> Document fm')"
        "fm' = fm \<or> fm' = patched w1 b fm"
    by (auto split: if_splits)
  then show ?thesis
  proof cases
    case same
    with grows_frame [OF g, of "file"] show ?thesis by (simp add: frame_def)
  next
    case moved
    have k: "\<forall>k. k \<noteq> completedDatePropertyName (settings w) \<longrightarrow> fm' k = fm k"
      using moved(5) patched_other [of _ w1 b fm] s by auto
    have a1: "\<forall>p x. p \<noteq> path file \<and> vault w p = Some x \<longrightarrow> vault w' p = Some x"
      using moved(2,4) grows_Some [OF g] by auto
    have a2: "\<forall>p. vault w p = None \<and> p \<noteq> path file'
            \<longrightarrow> vault w' p = None \<or> vault w' p = Some Folder"
      using moved(3,4) grows_None [OF g] by auto
    have a3: "\<forall>fm0. vault w (path file) = Some (Document fm0) \<longrightarrow>
            (\<exists>fm'. vault w' (path file') = Some (Document fm')
               \<and> (\<forall>k. k \<noteq> completedDatePropertyName (settings w) \<longrightarrow> fm' k = fm0 k))"
      using moved(1,3,4) k grows_Some [OF g] by auto
    have a4: "path file' \<noteq> path file \<longrightarrow> vault w' (path file) = None"
      using moved(3,4) by auto
    from a1 a2 a3 a4 show ?thesis unfolding frame_def by blast
  qed
qed

lemma frame_refl: "frame w file w file"
  by (simp add: frame_def)

lemma frame_console: "frame w file (w\<lparr>console := ls\<rparr>) file"
  by (simp add: frame_def)

lemma moveOutcome_frame:
  assumes "moveOutcome w file op b t r w' file'"
  shows "frame w file w' file'"
proof -
  from assms consider
    (same) "w' = w" "file' = file"
    | (isfile) "w' = w\<lparr>console := console w @ [Error_TargetIsFile t]\<rparr>" "file' = file"
    | (threw) "prepared w r w'" "file' = file"
    | (renamed) w1 where "prepared w None w1"
        "processFile_rename w1 file op b (t @ ''/'' @ name file) = (r, w', file')"
    unfolding moveOutcome_def by blast
  then show ?thesis
  proof cases
    case same
    then show ?thesis by (simp add: frame_refl)
  next
    case isfile
    then show ?thesis by (simp add: frame_console)
  next
    case threw
    then show ?thesis by (simp add: prepared_def grows_frame)
  next
    case renamed
    then show ?thesis by (rule rename_frame)
  qed
qed

lemma tryOutcome_frame:
  assumes "tryOutcome w file op tT tF r w' file'"
  shows "frame w file w' file'"
proof -
  from assms consider
    (same) "w' = w" "file' = file"
    | (warn) "w' = w\<lparr>console := console w @ [Warn_SettingsIncomplete]\<rparr>" "file' = file"
    | (move) b where "moveOutcome w file op b (if b then tT else tF) r w' file'"
    unfolding tryOutcome_def by blast
  then show ?thesis
  proof cases
    case same
    then show ?thesis by (simp add: frame_refl)
  next
    case warn
    then show ?thesis by (simp add: frame_console)
  next
    case move
    then show ?thesis by (rule moveOutcome_frame)
  qed
qed

lemma effect_refl: "effect w file np None w file"
  by (simp add: effect_def sameConfig_refl traced_refl onlyCalls_refl frame_refl
      seenUnder_refl)

lemma effect_console: "effect w file np None (w\<lparr>console := ls\<rparr>) file"
  by (simp add: effect_def sameConfig_def traced_def onlyCalls_def frame_console
      seenUnder_def)

lemma prepared_effect: "prepared w r w' \<Longrightarrow> effect w file np r w' file"
  unfolding effect_def prepared_def
  by (auto intro: grows_frame elim: onlyCalls_mono)

lemma rename_effect:
  assumes p: "prepared w None w1"
    and rn: "processFile_rename w1 file op b np = (r, w', file')"
  shows "effect w file np r w' file'"
proof -
  note rc = processFile_rename_cases [OF rn]
  from p have p': "sameConfig w w1" "traced w None w1"
    "onlyCalls (\<lambda>c. \<exists>q. c = CreateFolder q) w w1" "seenUnder w w1"
    by (simp_all add: prepared_def)
  from p'(1) have "processing w1 = processing w" by (simp add: sameConfig_def)
  from seenUnder_trans [OF p'(4) this rc(5)] have 4: "seenUnder w w'" .
  have 1: "sameConfig w w'" using p'(1) rc(1) by (rule sameConfig_trans)
  have 2: "traced w r w'" using p'(2) rc(2) by (rule traced_trans)
  have 3: "onlyCalls (\<lambda>c. (\<exists>q. c = CreateFolder q) \<or> c = Rename (path file) np
                       \<or> c = ProcessFrontMatter np) w w'"
    by (rule onlyCalls_trans [OF onlyCalls_mono [OF p'(3)] onlyCalls_mono [OF rc(3)]]) auto
  from 1 2 3 4 rename_frame [OF p rn] show ?thesis by (simp add: effect_def)
qed

lemma moveOutcome_effect:
  assumes "moveOutcome w file op b t r w' file'"
  shows "effect w file (t @ ''/'' @ name file) r w' file'"
proof -
  from assms consider
    (same) "w' = w" "file' = file" "r = None"
    | (isfile) "w' = w\<lparr>console := console w @ [Error_TargetIsFile t]\<rparr>" "file' = file"
        "r = None"
    | (threw) "prepared w r w'" "file' = file"
    | (renamed) w1 where "prepared w None w1"
        "processFile_rename w1 file op b (t @ ''/'' @ name file) = (r, w', file')"
    unfolding moveOutcome_def by blast
  then show ?thesis
  proof cases
    case same
    then show ?thesis by (simp add: effect_refl)
  next
    case isfile
    then show ?thesis by (simp add: effect_console)
  next
    case threw
    then show ?thesis by (simp add: prepared_effect)
  next
    case renamed
    then show ?thesis by (rule rename_effect)
  qed
qed

lemma tryOutcome_effect:
  assumes "tryOutcome w file op tT tF r w' file'"
  shows "effect w file (destination w file tT tF) r w' file'"
proof -
  from assms consider
    (same) "w' = w" "file' = file" "r = None"
    | (warn) "w' = w\<lparr>console := console w @ [Warn_SettingsIncomplete]\<rparr>" "file' = file"
        "r = None"
    | (move) b where "snapshotValue w file = Some (VBool b)"
        "moveOutcome w file op b (if b then tT else tF) r w' file'"
    unfolding tryOutcome_def by blast
  then show ?thesis
  proof cases
    case same
    then show ?thesis by (simp add: effect_refl)
  next
    case warn
    then show ?thesis by (simp add: effect_console)
  next
    case move
    from moveOutcome_effect [OF move(2)] move(1) show ?thesis
      by (simp add: destination_def)
  qed
qed

lemma tryOutcome_unclassified:
  assumes "tryOutcome w file op tT tF r w' file'"
    and "snapshotValue w file \<noteq> Some (VBool True)"
    and "snapshotValue w file \<noteq> Some (VBool False)"
  shows "r = None \<and> vault w' = vault w \<and> calls w' = calls w \<and> file' = file"
proof -
  from assms(2,3) have "\<And>b. snapshotValue w file \<noteq> Some (VBool b)"
    by (metis (full_types))
  with assms(1) show ?thesis unfolding tryOutcome_def by auto
qed

section \<open>The guard, \<open>catch\<close> and \<open>finally\<close>\<close>

text \<open>What the guard, \<open>catch\<close> and \<open>finally\<close> make of an outcome of the \<open>try\<close> block.\<close>

lemma catch_finally_effect:
  assumes g: "path file \<notin> processing w"
    and t: "tryOutcome (w\<lparr>processing := insert (path file) (processing w)\<rparr>) file (path file)
              tT tF r2 w2 file2"
    and res: "res = processFile_catch_finally (path file) (r2, w2, file2)"
  shows "thrown res = None" and "fileAfter res = file2"
    and "sameConfig w (worldAfter res)"
    and "frame w file (worldAfter res) (fileAfter res)"
    and "calls (worldAfter res) = calls w2"
    and "vault (worldAfter res) = vault w2"
    and "console (worldAfter res) =
           console w2 @ (case r2 of None \<Rightarrow> [] | Some e \<Rightarrow> [Error_Processing (path file) e])"
    and "effect (w\<lparr>processing := insert (path file) (processing w)\<rparr>) file
           (destination w file tT tF) r2 w2 file2"
    and "guardSeen (worldAfter res) = guardSeen w2"
proof -
  let ?w1 = "w\<lparr>processing := insert (path file) (processing w)\<rparr>"
  have sv: "snapshotValue ?w1 file = snapshotValue w file"
    by (simp add: snapshotValue_def getFileCache_def split: option.splits)
  from tryOutcome_effect [OF t] have e: "effect ?w1 file (destination w file tT tF) r2 w2 file2"
    by (simp add: destination_def sv)
  then show "effect ?w1 file (destination w file tT tF) r2 w2 file2" .
  from e have sc: "sameConfig ?w1 w2" and fr: "frame ?w1 file w2 file2"
    by (simp_all add: effect_def)
  show "thrown res = None" and "fileAfter res = file2"
    by (simp_all add: res processFile_catch_finally_def thrown_def fileAfter_def Let_def)
  show "sameConfig w (worldAfter res)"
    using sc g
    by (auto simp: res processFile_catch_finally_def worldAfter_def sameConfig_def Let_def
        split: option.splits)
  show "calls (worldAfter res) = calls w2" and "vault (worldAfter res) = vault w2"
    and "guardSeen (worldAfter res) = guardSeen w2"
    by (simp_all add: res processFile_catch_finally_def worldAfter_def Let_def
        split: option.splits)
  show "console (worldAfter res) =
           console w2 @ (case r2 of None \<Rightarrow> [] | Some e \<Rightarrow> [Error_Processing (path file) e])"
    by (simp add: res processFile_catch_finally_def worldAfter_def Let_def
        split: option.splits)
  show "frame w file (worldAfter res) (fileAfter res)"
    using fr
    by (simp add: res processFile_catch_finally_def worldAfter_def fileAfter_def frame_def
        Let_def split: option.splits)
qed

lemma processFile_held: "path file \<in> processing w \<Longrightarrow> processFile w file = (None, w, file)"
  by (simp add: processFile_def)

lemma processFile_basic_held:
  "path file \<in> processing w \<Longrightarrow> processFile_basic w file = (None, w, file)"
  by (simp add: processFile_basic_def)

lemma processFile_free:
  assumes "path file \<notin> processing w"
  obtains r2 w2 file2 where
    "tryOutcome (w\<lparr>processing := insert (path file) (processing w)\<rparr>) file (path file)
       (buildPath (rootFolder (settings w)) (trueFolder (settings w)))
       (buildPath (rootFolder (settings w)) (falseFolder (settings w))) r2 w2 file2"
    "processFile w file = processFile_catch_finally (path file) (r2, w2, file2)"
proof -
  let ?w1 = "w\<lparr>processing := insert (path file) (processing w)\<rparr>"
  obtain r2 w2 file2 where t: "processFile_try ?w1 file (path file) = (r2, w2, file2)"
    by (cases "processFile_try ?w1 file (path file)")
  from processFile_try_outcome [OF t]
  have "tryOutcome ?w1 file (path file)
       (buildPath (rootFolder (settings w)) (trueFolder (settings w)))
       (buildPath (rootFolder (settings w)) (falseFolder (settings w))) r2 w2 file2"
    by simp
  moreover from assms t
  have "processFile w file = processFile_catch_finally (path file) (r2, w2, file2)"
    by (simp add: processFile_def Let_def)
  ultimately show ?thesis by (rule that)
qed

lemma processFile_basic_free:
  assumes "path file \<notin> processing w"
  obtains r2 w2 file2 where
    "tryOutcome (w\<lparr>processing := insert (path file) (processing w)\<rparr>) file (path file)
       (trueFolder (settings w)) (falseFolder (settings w)) r2 w2 file2"
    "processFile_basic w file = processFile_catch_finally (path file) (r2, w2, file2)"
proof -
  let ?w1 = "w\<lparr>processing := insert (path file) (processing w)\<rparr>"
  obtain r2 w2 file2 where t: "processFile_basic_try ?w1 file (path file) = (r2, w2, file2)"
    by (cases "processFile_basic_try ?w1 file (path file)")
  from processFile_basic_try_outcome [OF t]
  have "tryOutcome ?w1 file (path file)
       (trueFolder (settings w)) (falseFolder (settings w)) r2 w2 file2"
    by simp
  moreover from assms t
  have "processFile_basic w file = processFile_catch_finally (path file) (r2, w2, file2)"
    by (simp add: processFile_basic_def Let_def)
  ultimately show ?thesis by (rule that)
qed

text \<open>The properties of a result that the guard, \<open>catch\<close> and \<open>finally\<close> give, whatever
  the \<open>try\<close> block was.\<close>

lemma guarded_result:
  assumes g: "path file \<notin> processing w"
    and t: "tryOutcome (w\<lparr>processing := insert (path file) (processing w)\<rparr>) file (path file)
              tT tF r2 w2 file2"
    and res: "res = processFile_catch_finally (path file) (r2, w2, file2)"
  shows "thrown res = None"
    and "processing (worldAfter res) = processing w"
    and "settings (worldAfter res) = settings w"
    and "\<forall>c. (c, True) \<in> set (newCalls w (worldAfter res)) \<longrightarrow>
           Error_Processing (path file) (HostError c) \<in> set (console (worldAfter res))"
    and "\<forall>c ok. (c, ok) \<in> set (newCalls w (worldAfter res)) \<longrightarrow>
           (\<exists>q. c = CreateFolder q) \<or> c = Rename (path file) (destination w file tT tF)
           \<or> c = ProcessFrontMatter (destination w file tT tF)"
    and "snapshotValue w file \<noteq> Some (VBool True) \<Longrightarrow>
         snapshotValue w file \<noteq> Some (VBool False) \<Longrightarrow>
           vault (worldAfter res) = vault w \<and> calls (worldAfter res) = calls w
           \<and> fileAfter res = file"
proof -
  let ?w1 = "w\<lparr>processing := insert (path file) (processing w)\<rparr>"
  note cf = catch_finally_effect [OF g t res]
  from cf(8) obtain cs where
    tr: "calls w2 = calls w @ cs" "\<forall>c. (c, True) \<in> set cs \<longrightarrow> r2 = Some (HostError c)"
    and oc: "\<forall>x \<in> set cs. (\<exists>q. fst x = CreateFolder q)
               \<or> fst x = Rename (path file) (destination w file tT tF)
               \<or> fst x = ProcessFrontMatter (destination w file tT tF)"
    by (auto simp: effect_def traced_def onlyCalls_def)
  have nc: "newCalls w (worldAfter res) = cs"
    by (simp add: newCalls_def cf(5) tr(1))
  show "thrown res = None" by (rule cf(1))
  show "processing (worldAfter res) = processing w"
    and "settings (worldAfter res) = settings w"
    using cf(3) by (simp_all add: sameConfig_def)
  show "\<forall>c. (c, True) \<in> set (newCalls w (worldAfter res)) \<longrightarrow>
           Error_Processing (path file) (HostError c) \<in> set (console (worldAfter res))"
    using tr(2) by (auto simp: nc cf(7))
  show "\<forall>c ok. (c, ok) \<in> set (newCalls w (worldAfter res)) \<longrightarrow>
           (\<exists>q. c = CreateFolder q) \<or> c = Rename (path file) (destination w file tT tF)
           \<or> c = ProcessFrontMatter (destination w file tT tF)"
    using oc by (auto simp: nc)
  show "vault (worldAfter res) = vault w \<and> calls (worldAfter res) = calls w
           \<and> fileAfter res = file"
    if "snapshotValue w file \<noteq> Some (VBool True)" "snapshotValue w file \<noteq> Some (VBool False)"
  proof -
    have sv: "snapshotValue ?w1 file = snapshotValue w file"
      by (simp add: snapshotValue_def getFileCache_def split: option.splits)
    from tryOutcome_unclassified [OF t] that sv
    have "vault w2 = vault w" "calls w2 = calls w" "file2 = file" by simp_all
    then show ?thesis by (simp add: cf(2,5,6))
  qed
qed

lemma newCalls_same: "newCalls w w = []"
  by (simp add: newCalls_def)

lemma snapshotValue_processing:
  "snapshotValue (w\<lparr>processing := X\<rparr>) file = snapshotValue w file"
  by (simp add: snapshotValue_def getFileCache_def split: option.splits)

lemma snapshotValue_console:
  "snapshotValue (w\<lparr>console := ls\<rparr>) file = snapshotValue w file"
  by (simp add: snapshotValue_def getFileCache_def split: option.splits)

section \<open>Creating the containers and renaming\<close>

lemma createFolder_ok:
  "vault w c = None \<Longrightarrow> \<not> hostFails w (CreateFolder c) \<Longrightarrow>
     createFolder w c
       = (None, w\<lparr>guardSeen := guardSeen w @ [(CreateFolder c, processing w)],
                  calls := calls w @ [(CreateFolder c, False)],
                  vault := (vault w)(c \<mapsto> Folder)\<rparr>)"
  by (simp add: createFolder_def Let_def)

lemma createFolder_None:
  "createFolder w c = (None, w1) \<Longrightarrow>
     w1 = w\<lparr>guardSeen := guardSeen w @ [(CreateFolder c, processing w)],
            calls := calls w @ [(CreateFolder c, False)],
            vault := (vault w)(c \<mapsto> Folder)\<rparr>"
  by (auto simp: createFolder_def Let_def split: if_splits)


lemma ensureFolder_loop_creates:
  "ensureFolder_loop w current parts = (None, w') \<Longrightarrow>
     vault w' = (\<lambda>p. if p \<in> set (currents current parts) \<and> vault w p = None
                     then Some Folder else vault w p)
     \<and> (\<exists>ps. calls w' = calls w @ map (\<lambda>p. (CreateFolder p, False)) ps
           \<and> subseq ps (currents current parts) \<and> distinct ps
           \<and> set ps = {p \<in> set (currents current parts). vault w p = None})"
proof (induction parts arbitrary: w current)
  case Nil
  then show ?case by simp
next
  case (Cons part parts)
  define c where "c = (if current \<noteq> [] then current @ ''/'' @ part else part)"
  have cur: "currents current (part # parts) = c # currents c parts"
    by (simp add: c_def Let_def)
  show ?case
  proof (cases "vault w c")
    case (Some existing)
    with Cons.prems have "ensureFolder_loop w c parts = (None, w')"
      by (simp add: c_def getAbstractFileByPath_def)
    from Cons.IH [OF this] obtain ps where
      v: "vault w' = (\<lambda>p. if p \<in> set (currents c parts) \<and> vault w p = None
                     then Some Folder else vault w p)"
      and ps: "calls w' = calls w @ map (\<lambda>p. (CreateFolder p, False)) ps"
        "subseq ps (currents c parts)" "distinct ps"
        "set ps = {p \<in> set (currents c parts). vault w p = None}"
      by blast
    from v Some have v': "vault w' = (\<lambda>p. if p \<in> set (c # currents c parts) \<and> vault w p = None
                     then Some Folder else vault w p)"
      by (intro ext) auto
    from ps(4) Some have s': "set ps = {p \<in> set (c # currents c parts). vault w p = None}"
      by auto
    from ps(2) have "subseq ps (c # currents c parts)" by (rule list_emb_Cons)
    with v' s' ps(1,3) show ?thesis unfolding cur by blast
  next
    case None
    obtain r1 w1 where cf: "createFolder w c = (r1, w1)" by (cases "createFolder w c")
    from Cons.prems None cf have r1: "r1 = None"
      by (cases r1) (simp_all add: c_def [symmetric] getAbstractFileByPath_def Let_def)
    with Cons.prems None cf have l: "ensureFolder_loop w1 c parts = (None, w')"
      by (simp add: c_def [symmetric] getAbstractFileByPath_def Let_def)
    from createFolder_None [OF cf [unfolded r1]]
    have w1: "calls w1 = calls w @ [(CreateFolder c, False)]" "vault w1 = (vault w)(c \<mapsto> Folder)"
      by simp_all
    from Cons.IH [OF l] obtain ps where
      v: "vault w' = (\<lambda>p. if p \<in> set (currents c parts) \<and> vault w1 p = None
                     then Some Folder else vault w1 p)"
      and ps: "calls w' = calls w1 @ map (\<lambda>p. (CreateFolder p, False)) ps"
        "subseq ps (currents c parts)" "distinct ps"
        "set ps = {p \<in> set (currents c parts). vault w1 p = None}"
      by blast
    from v None have v': "vault w' = (\<lambda>p. if p \<in> set (c # currents c parts) \<and> vault w p = None
                     then Some Folder else vault w p)"
      by (intro ext) (auto simp: w1(2))
    from ps(4) None have s': "set (c # ps) = {p \<in> set (c # currents c parts). vault w p = None}"
      by (auto simp: w1(2) split: if_splits)
    from ps(4) have "c \<notin> set ps" by (simp add: w1(2))
    with ps(3) have d: "distinct (c # ps)" by simp
    from ps(2) have sub: "subseq (c # ps) (c # currents c parts)" by simp
    from ps(1) have "calls w' = calls w @ map (\<lambda>p. (CreateFolder p, False)) (c # ps)"
      by (simp add: w1(1))
    with v' s' d sub show ?thesis unfolding cur by blast
  qed
qed

lemma split_slash_not_Nil: "split_slash t \<noteq> []"
  by (induction t) (auto split: list.splits)

lemma split_slash_join:
  "split_slash t = p # ps \<Longrightarrow> t = p @ concat (map (\<lambda>q. ''/'' @ q) ps)"
proof (induction t arbitrary: p ps)
  case Nil
  then show ?case by simp
next
  case (Cons c cs)
  obtain p' ps' where s: "split_slash cs = p' # ps'"
    using split_slash_not_Nil [of cs] by (cases "split_slash cs") auto
  from Cons.IH [OF s] have cs: "cs = p' @ concat (map (\<lambda>q. ''/'' @ q) ps')" .
  show ?case
  proof (cases "c = CHR ''/''")
    case True
    with Cons.prems s have "p = []" "ps = p' # ps'" by simp_all
    with cs True show ?thesis by simp
  next
    case False
    with Cons.prems s have "p = c # p'" "ps = ps'" by simp_all
    with cs show ?thesis by simp
  qed
qed

lemma split_slash_first:
  "t \<noteq> [] \<Longrightarrow> hd t \<noteq> CHR ''/'' \<Longrightarrow> \<exists>p ps. split_slash t = p # ps \<and> p \<noteq> []"
  by (cases t) (auto split: list.splits)

lemma currents_chain:
  "current \<noteq> [] \<Longrightarrow>
     last (current # currents current parts) = current @ concat (map (\<lambda>q. ''/'' @ q) parts)
     \<and> sorted_wrt strict_prefix (current # currents current parts)"
proof (induction parts arbitrary: current)
  case Nil
  then show ?case by simp
next
  case (Cons part parts)
  let ?c = "current @ ''/'' @ part"
  have c: "?c \<noteq> []" by simp
  from Cons.IH [OF c] have l: "last (?c # currents ?c parts)
       = ?c @ concat (map (\<lambda>q. ''/'' @ q) parts)"
    and s: "sorted_wrt strict_prefix (?c # currents ?c parts)"
    by simp_all
  have sp: "strict_prefix current ?c" by (simp add: strict_prefix_def)
  from s have "\<forall>y \<in> set (currents ?c parts). strict_prefix ?c y" by simp
  with sp have "\<forall>y \<in> set (?c # currents ?c parts). strict_prefix current y"
    by (auto intro: prefix_order.less_trans [OF sp])
  with s l Cons.prems show ?case by (simp add: Let_def)
qed

lemma folderPaths_chain:
  assumes "t \<noteq> []" and "hd t \<noteq> CHR ''/''"
  shows "folderPaths t \<noteq> [] \<and> last (folderPaths t) = t
     \<and> sorted_wrt strict_prefix (folderPaths t)"
proof -
  from split_slash_first [OF assms] obtain p ps where s: "split_slash t = p # ps" "p \<noteq> []"
    by blast
  have f: "folderPaths t = p # currents p ps"
    by (simp add: folderPaths_def s Let_def)
  from currents_chain [OF s(2), of ps]
  have "last (p # currents p ps) = p @ concat (map (\<lambda>q. ''/'' @ q) ps)"
    and so: "sorted_wrt strict_prefix (p # currents p ps)"
    by blast+
  with split_slash_join [OF s(1)] have "last (p # currents p ps) = t" by simp
  with so show ?thesis unfolding f by blast
qed

lemma rename_calls:
  "processFile_rename w1 file op b np = (r, w', file') \<Longrightarrow>
     \<exists>ok rest. calls w' = calls w1 @ (Rename (path file) np, ok) # rest"
  by (auto simp: processFile_rename_def rename_def processFile_stamp_def processFrontMatter_def
      Let_def split: if_splits option.splits TAbstractFile.splits prod.splits)

lemma calls_catch_finally:
  "calls (worldAfter (processFile_catch_finally op (r, w2, file2))) = calls w2"
  by (simp add: processFile_catch_finally_def worldAfter_def Let_def split: option.splits)

lemma reachesMove_run:
  assumes "reachesMove w file b t"
  shows "processFile w file
     = processFile_catch_finally (path file)
         (processFile_move (w\<lparr>processing := insert (path file) (processing w)\<rparr>) file
            (path file) b t)"
  using assms
  by (cases b)
    (auto simp: reachesMove_def processFile_def processFile_try_unfold
      snapshotValue_processing Let_def)

lemma reachesMove_basic_run:
  assumes "reachesMove_basic w file b t"
  shows "processFile_basic w file
     = processFile_catch_finally (path file)
         (processFile_basic_move (w\<lparr>processing := insert (path file) (processing w)\<rparr>) file
            (path file) b t)"
  using assms
  by (cases b)
    (auto simp: reachesMove_basic_def processFile_basic_def processFile_basic_try_unfold
      snapshotValue_processing Let_def)

lemma ensureFolder_creates:
  assumes "fst (ensureFolder w t) = None"
  shows "vault (snd (ensureFolder w t))
       = (\<lambda>p. if t \<noteq> [] \<and> p \<in> set (folderPaths t) \<and> vault w p = None
              then Some Folder else vault w p)"
proof (cases "t = []")
  case True
  then show ?thesis by (simp add: ensureFolder_def)
next
  case False
  obtain w' where "ensureFolder_loop w [] (split_slash t) = (None, w')"
    using assms False by (cases "ensureFolder_loop w [] (split_slash t)") (simp add: ensureFolder_def)
  from ensureFolder_loop_creates [OF this] this False show ?thesis
    by (simp add: ensureFolder_def folderPaths_def)
qed


lemma basic_creates_then_renames:
  assumes rm: "reachesMove_basic w file b t"
    and v: "vault w t = None"
    and nf: "\<not> hostFails w (CreateFolder t)"
  shows "\<exists>ok rest.
       newCalls w (worldAfter (processFile_basic w file))
         = (CreateFolder t, False) # (Rename (path file) (t @ ''/'' @ name file), ok) # rest"
proof -
  let ?w1 = "w\<lparr>processing := insert (path file) (processing w)\<rparr>"
  let ?w1' = "?w1\<lparr>guardSeen := guardSeen ?w1 @ [(CreateFolder t, processing ?w1)],
                  calls := calls ?w1 @ [(CreateFolder t, False)],
                  vault := (vault ?w1)(t \<mapsto> Folder)\<rparr>"
  from rm have np: "(case parent file of None \<Rightarrow> [] | Some p \<Rightarrow> p) \<noteq> t"
    by (auto simp: reachesMove_basic_def)
  have cf: "createFolder ?w1 t = (None, ?w1')"
    using v nf by (simp add: createFolder_ok)
  obtain r w2 file2 where
    rn: "processFile_rename ?w1' file (path file) b (t @ ''/'' @ name file) = (r, w2, file2)"
    by (cases "processFile_rename ?w1' file (path file) b (t @ ''/'' @ name file)")
  from rename_calls [OF rn] obtain ok rest where
    c2: "calls w2 = calls ?w1' @ (Rename (path file) (t @ ''/'' @ name file), ok) # rest"
    by blast
  have "processFile_basic_move ?w1 file (path file) b t = (r, w2, file2)"
    using np v cf rn
    by (simp add: processFile_basic_move_def getAbstractFileByPath_def Let_def)
  with reachesMove_basic_run [OF rm]
  have "calls (worldAfter (processFile_basic w file)) = calls w2"
    by (simp add: calls_catch_finally)
  with c2 show ?thesis by (simp add: newCalls_def)
qed

lemma basic_target_is_file:
  assumes rm: "reachesMove_basic w file b t"
    and v: "vault w t = Some (Document fm)"
  shows "worldAfter (processFile_basic w file) = w\<lparr>console := console w @ [Error_TargetIsFile t]\<rparr>
     \<and> fileAfter (processFile_basic w file) = file"
proof -
  from rm have np: "(case parent file of None \<Rightarrow> [] | Some p \<Rightarrow> p) \<noteq> t"
    and g: "path file \<notin> processing w"
    by (auto simp: reachesMove_basic_def)
  show ?thesis
    using np v g
    by (simp add: reachesMove_basic_run [OF rm] processFile_basic_move_def
        getAbstractFileByPath_def processFile_catch_finally_def worldAfter_def fileAfter_def
        Let_def guard_restore)
qed

text \<open>When the rename is reached, the invocation makes at least one host call.\<close>

lemma reachesMove_calls:
  assumes rm: "reachesMove w file b t"
  shows "newCalls w (worldAfter (processFile w file)) \<noteq> []"
proof -
  let ?w1 = "w\<lparr>processing := insert (path file) (processing w)\<rparr>"
  from rm have np: "(case parent file of None \<Rightarrow> [] | Some p \<Rightarrow> p) \<noteq> t"
    by (auto simp: reachesMove_def split: if_splits)
  obtain r1 w1' where ef: "ensureFolder ?w1 t = (r1, w1')" by (cases "ensureFolder ?w1 t")
  from ensureFolder_props [OF ef] obtain cs where
    cs: "calls w1' = calls w @ cs" "r1 \<noteq> None \<longrightarrow> (\<exists>c. (c, True) \<in> set cs)"
    by (auto simp: traced_def)
  show ?thesis
  proof (cases r1)
    case None
    obtain r w2 file2 where
      rn: "processFile_rename w1' file (path file) b (t @ ''/'' @ name file) = (r, w2, file2)"
      by (cases "processFile_rename w1' file (path file) b (t @ ''/'' @ name file)")
    from rename_calls [OF rn] obtain ok rest where
      c2: "calls w2 = calls w1' @ (Rename (path file) (t @ ''/'' @ name file), ok) # rest"
      by blast
    have "processFile_move ?w1 file (path file) b t = (r, w2, file2)"
      using np ef None rn by (simp add: processFile_move_def Let_def)
    with reachesMove_run [OF rm]
    have "calls (worldAfter (processFile w file)) = calls w2"
      by (simp add: calls_catch_finally)
    with c2 cs(1) show ?thesis by (simp add: newCalls_def)
  next
    case (Some e)
    have "processFile_move ?w1 file (path file) b t = (r1, w1', file)"
      using np ef Some by (simp add: processFile_move_def Let_def)
    with reachesMove_run [OF rm]
    have "calls (worldAfter (processFile w file)) = calls w1'"
      by (simp add: calls_catch_finally)
    moreover from cs(2) Some have "cs \<noteq> []" by auto
    ultimately show ?thesis using cs(1) by (simp add: newCalls_def)
  qed
qed

lemma reachesMove_basic_calls:
  assumes rm: "reachesMove_basic w file b t"
    and nd: "\<forall>fm. vault w t \<noteq> Some (Document fm)"
  shows "newCalls w (worldAfter (processFile_basic w file)) \<noteq> []"
proof -
  let ?w1 = "w\<lparr>processing := insert (path file) (processing w)\<rparr>"
  from rm have np: "(case parent file of None \<Rightarrow> [] | Some p \<Rightarrow> p) \<noteq> t"
    by (auto simp: reachesMove_basic_def)
  obtain r w2 file2 where
    mv: "processFile_basic_move ?w1 file (path file) b t = (r, w2, file2)"
    by (cases "processFile_basic_move ?w1 file (path file) b t")
  with reachesMove_basic_run [OF rm]
  have c: "calls (worldAfter (processFile_basic w file)) = calls w2"
    by (simp add: calls_catch_finally)
  have "\<exists>x cs. calls w2 = calls w @ x # cs"
  proof (cases "vault w t")
    case None
    obtain r1 w1' where cf: "createFolder ?w1 t = (r1, w1')" by (cases "createFolder ?w1 t")
    from createFolder_props [OF cf] obtain cs where
      cs: "calls w1' = calls w @ cs" "r1 \<noteq> None \<longrightarrow> (\<exists>c. (c, True) \<in> set cs)"
      by (auto simp: traced_def)
    show ?thesis
    proof (cases r1)
      case rNone: None
      with mv np None cf
      have rn: "processFile_rename w1' file (path file) b (t @ ''/'' @ name file)
          = (r, w2, file2)"
        by (simp add: processFile_basic_move_def getAbstractFileByPath_def Let_def)
      from rename_calls [OF rn] cs(1) show ?thesis
        by (cases cs) auto
    next
      case (Some e)
      with mv np None cf have "w2 = w1'"
        by (simp add: processFile_basic_move_def getAbstractFileByPath_def Let_def)
      moreover from cs(2) Some obtain x cs' where "cs = x # cs'" by (cases cs) auto
      ultimately show ?thesis using cs(1) by simp
    qed
  next
    case (Some x)
    with nd have "x = Folder" by (cases x) auto
    with mv np Some
    have rn: "processFile_rename ?w1 file (path file) b (t @ ''/'' @ name file)
        = (r, w2, file2)"
      by (simp add: processFile_basic_move_def getAbstractFileByPath_def Let_def)
    from rename_calls [OF rn] show ?thesis by auto
  qed
  with c show ?thesis by (auto simp: newCalls_def)
qed

text \<open>Every host call of an invocation is awaited under the guard set with the path.\<close>

lemma guarded_seen:
  assumes g: "path file \<notin> processing w"
    and t: "tryOutcome (w\<lparr>processing := insert (path file) (processing w)\<rparr>) file (path file)
              tT tF r2 w2 file2"
    and res: "res = processFile_catch_finally (path file) (r2, w2, file2)"
  shows "newSeen w (worldAfter res)
       = map (\<lambda>x. (fst x, insert (path file) (processing w))) (newCalls w (worldAfter res))"
proof -
  note cf = catch_finally_effect [OF g t res]
  from cf(8) obtain cs where "calls w2 = calls w @ cs"
    "guardSeen w2 = guardSeen w @ map (\<lambda>x. (fst x, insert (path file) (processing w))) cs"
    by (auto simp: effect_def seenUnder_def)
  then show ?thesis by (simp add: newSeen_def newCalls_def cf(5,9))
qed




section \<open>The format of the stamp\<close>

lemma digitChar_digit: "n < 10 \<Longrightarrow> isDigit (digitChar n)"
  unfolding isDigit_def digitChar_def by (rule nth_mem) simp

lemma decimal_digits: "list_all isDigit (decimal n)"
proof (induction n rule: decimal.induct)
  case (1 n)
  show ?case
  proof (cases "n < 10")
    case True
    then show ?thesis by (subst decimal.simps) (simp add: digitChar_digit)
  next
    case False
    with 1 have "list_all isDigit (decimal (n div 10))" by simp
    moreover have "isDigit (digitChar (n mod 10))" by (simp add: digitChar_digit)
    ultimately show ?thesis using False by (subst decimal.simps) simp
  qed
qed

lemma length_decimal: "n < 10 ^ k \<Longrightarrow> 0 < k \<Longrightarrow> length (decimal n) \<le> k"
proof (induction n arbitrary: k rule: decimal.induct)
  case (1 n)
  show ?case
  proof (cases "n < 10")
    case True
    with 1(3) show ?thesis by (subst decimal.simps) simp
  next
    case False
    from 1(3) obtain j where k: "k = Suc j" by (cases k) auto
    from False 1(2) k have j: "0 < j" by (cases j) auto
    from 1(2) k have "n div 10 < 10 ^ j"
      by (simp add: less_mult_imp_div_less mult.commute)
    from 1(1) [OF False this j] have "length (decimal (n div 10)) \<le> j" .
    with False k show ?thesis by (subst decimal.simps) simp
  qed
qed

lemma addLeadingZeros_shape:
  assumes "n < 10 ^ k" and "0 < k"
  shows "length (addLeadingZeros n k) = k" and "list_all isDigit (addLeadingZeros n k)"
proof -
  from length_decimal [OF assms] show "length (addLeadingZeros n k) = k"
    by (simp add: addLeadingZeros_def)
  have "isDigit (CHR ''0'')" by (simp add: isDigit_def)
  with decimal_digits [of n] show "list_all isDigit (addLeadingZeros n k)"
    by (auto simp: addLeadingZeros_def list_all_iff)
qed

lemma takeDigits_append:
  "length d = k \<Longrightarrow> list_all isDigit d \<Longrightarrow> takeDigits k (d @ r) = Some r"
  by (simp add: takeDigits_def)

lemma takeDigits_all: "length d = k \<Longrightarrow> list_all isDigit d \<Longrightarrow> takeDigits k d = Some []"
  by (simp add: takeDigits_def)

lemma offset_parts:
  assumes "length hh = 2" "list_all isDigit hh" "length mm = 2" "list_all isDigit mm"
    and "sg = CHR ''+'' \<or> sg = CHR ''-''"
  shows "isOffsetDesignator (sg # (hh @ '':'' @ mm))"
  using assms
  by (auto simp: isOffsetDesignator_def takeDigits_append takeDigits_all takeChar_def)

lemma offset_shape:
  assumes "\<bar>off\<bar> < 24 * 60"
  shows "isOffsetDesignator (formatOffset off)"
proof (cases "off = 0")
  case True
  then show ?thesis by (simp add: formatOffset_def isOffsetDesignator_def)
next
  case False
  define a where "a = nat \<bar>off\<bar>"
  from assms have "a div 60 < 10 ^ 2" and "a mod 60 < 10 ^ 2" by (simp_all add: a_def)
  note h = addLeadingZeros_shape [OF this(1) zero_less_numeral]
    and m = addLeadingZeros_shape [OF this(2) zero_less_numeral]
  have "isOffsetDesignator
       ((if off < 0 then CHR ''-'' else CHR ''+'')
        # (addLeadingZeros (a div 60) 2 @ '':'' @ addLeadingZeros (a mod 60) 2))"
    by (rule offset_parts [OF h m]) simp
  moreover have "formatOffset off
       = (if off < 0 then CHR ''-'' else CHR ''+'')
         # (addLeadingZeros (a div 60) 2 @ '':'' @ addLeadingZeros (a mod 60) 2)"
    using False unfolding formatOffset_def a_def by simp
  ultimately show ?thesis by (simp only:)
qed

lemma iso_shape:
  assumes "length y = 4" "list_all isDigit y" "length mo = 2" "list_all isDigit mo"
    "length d = 2" "list_all isDigit d" "length h = 2" "list_all isDigit h"
    "length mi = 2" "list_all isDigit mi" "length s = 2" "list_all isDigit s"
    "isOffsetDesignator z"
  shows "isIso8601Offset (y @ ''-'' @ mo @ ''-'' @ d @ ''T'' @ h @ '':'' @ mi @ '':'' @ s @ z)"
  using assms by (simp add: isIso8601Offset_def takeDigits_append takeChar_def)

lemma formatInTimeZone_iso:
  assumes y: "year t < 10000" and v: "validClock t"
  shows "isIso8601Offset (formatInTimeZone t)"
proof -
  from y have "year t < 10 ^ 4" by simp
  note a = addLeadingZeros_shape [OF this zero_less_numeral]
  from v have "month t < 10 ^ 2" "day t < 10 ^ 2" "hours t < 10 ^ 2" "minutes t < 10 ^ 2"
    "seconds t < 10 ^ 2" and o: "\<bar>offsetMinutes t\<bar> < 24 * 60"
    by (simp_all add: validClock_def)
  note b = addLeadingZeros_shape [OF this(1) zero_less_numeral]
    and c = addLeadingZeros_shape [OF this(2) zero_less_numeral]
    and d = addLeadingZeros_shape [OF this(3) zero_less_numeral]
    and e = addLeadingZeros_shape [OF this(4) zero_less_numeral]
    and f = addLeadingZeros_shape [OF this(5) zero_less_numeral]
  show ?thesis
    unfolding formatInTimeZone_def
    by (rule iso_shape) (simp_all add: a b c d e f offset_shape [OF o])
qed

section \<open>The claims\<close>

text \<open>The definitions a run of \<open>processFile\<close> on an example world unfolds.\<close>

lemmas run_defs =
  processFile_def processFile_try_def processFile_move_def processFile_rename_def
  processFile_stamp_def processFile_catch_finally_def ensureFolder_def createFolder_def
  rename_def processFrontMatter_def getAbstractFileByPath_def getFileCache_def
  buildPath_def startsWith_def stampCompletedDate_def clearCompletedDate_def
  processFile_basic_def processFile_basic_try_def processFile_basic_move_def
  worldAfter_def fileAfter_def thrown_def newCalls_def snapshotValue_def Let_def
  readProperty_def objectPrototypeNames_def formatInTimeZone_def formatOffset_def
  addLeadingZeros_def digitChar_def decimal.simps newSeen_def newLines_def

lemmas example_defs =
  checkmark_def DEFAULT_SETTINGS_def exampleFile_def exampleWorld_def outsideFile_def

lemmas more_defs = stringWorld_def archivedFile_def archivedWorld_def unnamedWorld_def

lemmas c3_defs =
  folderPaths_def reachesMove_def reachesMove_basic_def inboxFile_def inboxWorld_def
  doneIsFileWorld_def archiveIsFileWorld_def failingWorld_def

subsection \<open>The reentrancy guard (C1)\<close>

text \<open>
  C1. In both variants: when the path of the document is in the guard set, \<open>processFile\<close>
  returns at once and the world is unchanged. Otherwise the path is added to the guard
  set before any work on the host: every host call of the invocation is awaited under
  the guard set of before plus the path, so that a notification for the same path that
  arrives meanwhile returns at once; and such calls there are whenever the document is to
  be moved. In every case, however the invocation ends, the guard set after the call is
  the guard set before it.
\<close>

theorem C1_reentrancy_guard:
  "(path file \<in> processing w \<longrightarrow>
      processFile w file = (None, w, file) \<and> processFile_basic w file = (None, w, file))
   \<and> processing (worldAfter (processFile w file)) = processing w
   \<and> processing (worldAfter (processFile_basic w file)) = processing w
   \<and> newSeen w (worldAfter (processFile w file))
       = map (\<lambda>x. (fst x, insert (path file) (processing w)))
           (newCalls w (worldAfter (processFile w file)))
   \<and> newSeen w (worldAfter (processFile_basic w file))
       = map (\<lambda>x. (fst x, insert (path file) (processing w)))
           (newCalls w (worldAfter (processFile_basic w file)))
   \<and> (reachesMove w file b t \<longrightarrow> newCalls w (worldAfter (processFile w file)) \<noteq> [])
   \<and> (reachesMove_basic w file b t \<and> (\<forall>fm. vault w t \<noteq> Some (Document fm)) \<longrightarrow>
        newCalls w (worldAfter (processFile_basic w file)) \<noteq> [])"
proof -
  let ?w1 = "w\<lparr>processing := insert (path file) (processing w)\<rparr>"
  have a: "processing (worldAfter (processFile w file)) = processing w
     \<and> newSeen w (worldAfter (processFile w file))
       = map (\<lambda>x. (fst x, insert (path file) (processing w)))
           (newCalls w (worldAfter (processFile w file)))"
  proof (cases "path file \<in> processing w")
    case True
    then show ?thesis
      by (simp add: processFile_held worldAfter_def newSeen_def newCalls_def)
  next
    case False
    then obtain r2 w2 file2 tT tF where
      "tryOutcome ?w1 file (path file) tT tF r2 w2 file2"
      "processFile w file = processFile_catch_finally (path file) (r2, w2, file2)"
      by (rule processFile_free)
    from guarded_result(2) [OF False this] guarded_seen [OF False this] show ?thesis by simp
  qed
  have b: "processing (worldAfter (processFile_basic w file)) = processing w
     \<and> newSeen w (worldAfter (processFile_basic w file))
       = map (\<lambda>x. (fst x, insert (path file) (processing w)))
           (newCalls w (worldAfter (processFile_basic w file)))"
  proof (cases "path file \<in> processing w")
    case True
    then show ?thesis
      by (simp add: processFile_basic_held worldAfter_def newSeen_def newCalls_def)
  next
    case False
    then obtain r2 w2 file2 tT tF where
      "tryOutcome ?w1 file (path file) tT tF r2 w2 file2"
      "processFile_basic w file = processFile_catch_finally (path file) (r2, w2, file2)"
      by (rule processFile_basic_free)
    from guarded_result(2) [OF False this] guarded_seen [OF False this] show ?thesis by simp
  qed
  have c: "newCalls w (worldAfter (processFile w file)) \<noteq> []" if "reachesMove w file b t"
    using that by (rule reachesMove_calls)
  have d: "newCalls w (worldAfter (processFile_basic w file)) \<noteq> []"
    if "reachesMove_basic w file b t" "\<forall>fm. vault w t \<noteq> Some (Document fm)"
    using that by (rule reachesMove_basic_calls)
  have e: "processFile w file = (None, w, file) \<and> processFile_basic w file = (None, w, file)"
    if "path file \<in> processing w"
    using that by (simp add: processFile_held processFile_basic_held)
  from a b c d e show ?thesis by blast
qed

theorem C1_reentrancy_guard_witness:
  "path exampleFile \<in> processing heldWorld
   \<and> processFile heldWorld exampleFile = (None, heldWorld, exampleFile)
   \<and> processFile_basic heldWorld exampleFile = (None, heldWorld, exampleFile)
   \<and> snapshotValue heldWorld exampleFile = Some (VBool True)
   \<and> reachesMove exampleWorld exampleFile True ''taskflow/archive''
   \<and> newCalls exampleWorld (worldAfter (processFile exampleWorld exampleFile)) \<noteq> []
   \<and> newSeen exampleWorld (worldAfter (processFile exampleWorld exampleFile))
       = [(CreateFolder ''taskflow/archive'', {''taskflow/t.md''}),
          (Rename ''taskflow/t.md'' ''taskflow/archive/t.md'', {''taskflow/t.md''}),
          (ProcessFrontMatter ''taskflow/archive/t.md'', {''taskflow/t.md''})]
   \<and> processing (worldAfter (processFile exampleWorld exampleFile)) = {}
   \<and> reachesMove_basic inboxWorld inboxFile True ''Done''
   \<and> newCalls inboxWorld (worldAfter (processFile_basic inboxWorld inboxFile)) \<noteq> []"
proof -
  have h: "path exampleFile \<in> processing heldWorld"
    by (simp add: example_defs heldWorld_def)
  have s: "snapshotValue heldWorld exampleFile = Some (VBool True)"
    by (simp add: run_defs example_defs heldWorld_def)
  have h1: "reachesMove exampleWorld exampleFile True ''taskflow/archive''"
    by (simp add: run_defs example_defs c3_defs)
  have h2: "reachesMove_basic inboxWorld inboxFile True ''Done''"
    by (simp add: run_defs example_defs c3_defs)
  have h3: "\<forall>fm. vault inboxWorld ''Done'' \<noteq> Some (Document fm)"
    by (simp add: example_defs c3_defs)
  have nc: "newCalls exampleWorld (worldAfter (processFile exampleWorld exampleFile))
      = [(CreateFolder ''taskflow/archive'', False),
         (Rename ''taskflow/t.md'' ''taskflow/archive/t.md'', False),
         (ProcessFrontMatter ''taskflow/archive/t.md'', False)]"
    by (simp add: run_defs example_defs)
  have g: "insert (path exampleFile) (processing exampleWorld) = {''taskflow/t.md''}"
    and p: "processing exampleWorld = {}"
    by (simp_all add: example_defs)
  note a = C1_reentrancy_guard [of exampleFile heldWorld True "''taskflow/archive''"]
  note b = C1_reentrancy_guard [of exampleFile exampleWorld True "''taskflow/archive''"]
  note c = C1_reentrancy_guard [of inboxFile inboxWorld True "''Done''"]
  from a h have 1: "processFile heldWorld exampleFile = (None, heldWorld, exampleFile)
     \<and> processFile_basic heldWorld exampleFile = (None, heldWorld, exampleFile)"
    by blast
  from b h1 have 2: "newCalls exampleWorld (worldAfter (processFile exampleWorld exampleFile))
      \<noteq> []"
    by blast
  from b have "newSeen exampleWorld (worldAfter (processFile exampleWorld exampleFile))
       = map (\<lambda>x. (fst x, insert (path exampleFile) (processing exampleWorld)))
           (newCalls exampleWorld (worldAfter (processFile exampleWorld exampleFile)))"
    by blast
  then have 3: "newSeen exampleWorld (worldAfter (processFile exampleWorld exampleFile))
       = [(CreateFolder ''taskflow/archive'', {''taskflow/t.md''}),
          (Rename ''taskflow/t.md'' ''taskflow/archive/t.md'', {''taskflow/t.md''}),
          (ProcessFrontMatter ''taskflow/archive/t.md'', {''taskflow/t.md''})]"
    by (simp only: nc g) simp
  from b p have 4: "processing (worldAfter (processFile exampleWorld exampleFile)) = {}"
    by simp
  from c h2 h3
  have 5: "newCalls inboxWorld (worldAfter (processFile_basic inboxWorld inboxFile)) \<noteq> []"
    by blast
  from h s h1 h2 1 2 3 4 5 show ?thesis by blast
qed

subsection \<open>Only booleans classify (C2)\<close>

text \<open>The rename of an invocation moves this document to the container of its value.\<close>

lemma relocation_shape:
  assumes g: "path file \<notin> processing w"
    and t: "tryOutcome (w\<lparr>processing := insert (path file) (processing w)\<rparr>) file (path file)
              tT tF r2 w2 file2"
    and res: "res = processFile_catch_finally (path file) (r2, w2, file2)"
    and rn: "(Rename a b, ok) \<in> set (newCalls w (worldAfter res))"
  shows "a = path file
     \<and> ((snapshotValue w file = Some (VBool True) \<and> b = tT @ ''/'' @ name file)
        \<or> (snapshotValue w file = Some (VBool False) \<and> b = tF @ ''/'' @ name file))"
proof -
  note gr = guarded_result [OF g t res]
  from gr(5) rn have ab: "a = path file" "b = destination w file tT tF" by auto
  have "snapshotValue w file = Some (VBool True) \<or> snapshotValue w file = Some (VBool False)"
  proof (rule ccontr)
    assume "\<not> ?thesis"
    with gr(6) have "calls (worldAfter res) = calls w" by simp
    with rn show False by (simp add: newCalls_def)
  qed
  with ab show ?thesis by (auto simp: destination_def)
qed

text \<open>
  C2. In both variants: when the value the metadata snapshot holds under \<open>propertyName\<close>
  is neither the boolean \<open>true\<close> nor the boolean \<open>false\<close> (absent, a string, a number,
  null), \<open>processFile\<close> leaves the storage, the record of host calls and the file as they
  were; and every rename an invocation attempts moves this document into the resolved true
  container when the value is \<open>true\<close> and into the resolved false container when it is
  \<open>false\<close>.
\<close>

theorem C2_boolean_only:
  "(snapshotValue w file \<noteq> Some (VBool True) \<and> snapshotValue w file \<noteq> Some (VBool False) \<longrightarrow>
      vault (worldAfter (processFile w file)) = vault w
      \<and> calls (worldAfter (processFile w file)) = calls w
      \<and> fileAfter (processFile w file) = file
      \<and> vault (worldAfter (processFile_basic w file)) = vault w
      \<and> calls (worldAfter (processFile_basic w file)) = calls w
      \<and> fileAfter (processFile_basic w file) = file)
   \<and> (\<forall>a b ok. (Rename a b, ok) \<in> set (newCalls w (worldAfter (processFile w file))) \<longrightarrow>
         a = path file
         \<and> ((snapshotValue w file = Some (VBool True)
              \<and> b = buildPath (rootFolder (settings w)) (trueFolder (settings w))
                    @ ''/'' @ name file)
            \<or> (snapshotValue w file = Some (VBool False)
              \<and> b = buildPath (rootFolder (settings w)) (falseFolder (settings w))
                    @ ''/'' @ name file)))
   \<and> (\<forall>a b ok. (Rename a b, ok) \<in> set (newCalls w (worldAfter (processFile_basic w file))) \<longrightarrow>
         a = path file
         \<and> ((snapshotValue w file = Some (VBool True)
              \<and> b = trueFolder (settings w) @ ''/'' @ name file)
            \<or> (snapshotValue w file = Some (VBool False)
              \<and> b = falseFolder (settings w) @ ''/'' @ name file)))"
proof (cases "path file \<in> processing w")
  case True
  then show ?thesis
    by (simp add: processFile_held processFile_basic_held worldAfter_def fileAfter_def
        newCalls_same)
next
  case False
  let ?w1 = "w\<lparr>processing := insert (path file) (processing w)\<rparr>"
  obtain r2 w2 file2 where e:
    "tryOutcome ?w1 file (path file)
       (buildPath (rootFolder (settings w)) (trueFolder (settings w)))
       (buildPath (rootFolder (settings w)) (falseFolder (settings w))) r2 w2 file2"
    "processFile w file = processFile_catch_finally (path file) (r2, w2, file2)"
    using False by (rule processFile_free)
  obtain r3 w3 file3 where b:
    "tryOutcome ?w1 file (path file) (trueFolder (settings w)) (falseFolder (settings w))
       r3 w3 file3"
    "processFile_basic w file = processFile_catch_finally (path file) (r3, w3, file3)"
    using False by (rule processFile_basic_free)
  note ge = guarded_result(6) [OF False e]
  note gb = guarded_result(6) [OF False b]
  note re = relocation_shape [OF False e]
  note rb = relocation_shape [OF False b]
  from ge gb re rb show ?thesis by blast
qed

theorem C2_boolean_only_witness:
  "snapshotValue stringWorld exampleFile = Some (VStr ''true'')
   \<and> vault (worldAfter (processFile stringWorld exampleFile)) = vault stringWorld
   \<and> calls (worldAfter (processFile stringWorld exampleFile)) = calls stringWorld
   \<and> (Rename ''taskflow/t.md'' ''taskflow/archive/t.md'', False)
        \<in> set (newCalls exampleWorld (worldAfter (processFile exampleWorld exampleFile)))
   \<and> snapshotValue exampleWorld exampleFile = Some (VBool True)
   \<and> ''taskflow/archive/t.md''
        = buildPath (rootFolder (settings exampleWorld)) (trueFolder (settings exampleWorld))
            @ ''/'' @ name exampleFile"
proof -
  have h1: "snapshotValue stringWorld exampleFile = Some (VStr ''true'')"
    by (simp add: run_defs example_defs more_defs)
  have h2: "(Rename ''taskflow/t.md'' ''taskflow/archive/t.md'', False)
        \<in> set (newCalls exampleWorld (worldAfter (processFile exampleWorld exampleFile)))"
    by (simp add: run_defs example_defs)
  from C2_boolean_only [of stringWorld exampleFile] h1
  have a: "vault (worldAfter (processFile stringWorld exampleFile)) = vault stringWorld
     \<and> calls (worldAfter (processFile stringWorld exampleFile)) = calls stringWorld"
    by simp
  from C2_boolean_only [of exampleWorld exampleFile] h2
  have b: "snapshotValue exampleWorld exampleFile = Some (VBool True)
     \<and> ''taskflow/archive/t.md''
        = buildPath (rootFolder (settings exampleWorld)) (trueFolder (settings exampleWorld))
            @ ''/'' @ name exampleFile"
    by (simp add: run_defs example_defs)
  from h1 h2 a b show ?thesis by simp
qed

subsection \<open>The target container (C3)\<close>

text \<open>
  C3 fails in the extended variant. With a file where the target container should be,
  \<open>ensureFolder\<close> finds the path taken, raises no error and creates nothing, and
  \<open>processFile\<close> goes on to attempt the rename; here the host rejects it, and the error
  that is logged is the host's. The basic variant, with a file at the target path, writes
  its own error line and attempts no host call.
\<close>

theorem C3_file_at_target:
  "vault archiveIsFileWorld ''taskflow/archive'' = Some (Document Map.empty)
   \<and> fst (ensureFolder archiveIsFileWorld ''taskflow/archive'') = None
   \<and> calls (snd (ensureFolder archiveIsFileWorld ''taskflow/archive'')) = []
   \<and> calls (worldAfter (processFile archiveIsFileWorld exampleFile))
        = [(Rename ''taskflow/t.md'' ''taskflow/archive/t.md'', True)]
   \<and> console (worldAfter (processFile archiveIsFileWorld exampleFile))
        = [Error_Processing ''taskflow/t.md''
             (HostError (Rename ''taskflow/t.md'' ''taskflow/archive/t.md''))]
   \<and> vault doneIsFileWorld ''Done'' = Some (Document Map.empty)
   \<and> calls (worldAfter (processFile_basic doneIsFileWorld inboxFile)) = []
   \<and> console (worldAfter (processFile_basic doneIsFileWorld inboxFile))
        = [Error_TargetIsFile ''Done'']"
  by (simp add: run_defs example_defs c3_defs)

subsection \<open>Incomplete settings (C4)\<close>







subsection \<open>A document in place (C5)\<close>

text \<open>The document is in its target container already.\<close>

lemma already_in_place:
  assumes "snapshotValue w file = Some (VBool b)"
    and "(case parent file of None \<Rightarrow> [] | Some p \<Rightarrow> p)
           = (if b then buildPath (rootFolder (settings w)) (trueFolder (settings w))
              else buildPath (rootFolder (settings w)) (falseFolder (settings w)))"
  shows "fileAfter (processFile w file) = file
     \<and> (worldAfter (processFile w file) = w
        \<or> worldAfter (processFile w file) = w\<lparr>console := console w @ [Warn_SettingsIncomplete]\<rparr>)"
  using assms
  by (cases b)
    (simp_all add: processFile_def processFile_try_unfold processFile_move_def
      processFile_catch_finally_def worldAfter_def fileAfter_def Let_def guard_restore
      snapshotValue_processing)

lemma already_in_place_basic:
  assumes "snapshotValue w file = Some (VBool b)"
    and "(case parent file of None \<Rightarrow> [] | Some p \<Rightarrow> p)
           = (if b then trueFolder (settings w) else falseFolder (settings w))"
  shows "fileAfter (processFile_basic w file) = file
     \<and> (worldAfter (processFile_basic w file) = w
        \<or> worldAfter (processFile_basic w file)
            = w\<lparr>console := console w @ [Warn_SettingsIncomplete]\<rparr>)"
  using assms
  by (cases b)
    (simp_all add: processFile_basic_def processFile_basic_try_unfold processFile_basic_move_def
      processFile_catch_finally_def worldAfter_def fileAfter_def Let_def guard_restore
      snapshotValue_processing)

lemma in_place_twice:
  assumes 1: "\<And>w'. snapshotValue w' fl = snapshotValue w fl \<Longrightarrow>
                 settings w' = settings w \<Longrightarrow>
                 fileAfter (f w' fl) = fl
                 \<and> (worldAfter (f w' fl) = w'
                    \<or> worldAfter (f w' fl)
                         = w'\<lparr>console := console w' @ [Warn_SettingsIncomplete]\<rparr>)"
  shows "vault (worldAfter (f w fl)) = vault w
     \<and> calls (worldAfter (f w fl)) = calls w
     \<and> fileAfter (f w fl) = fl
     \<and> vault (worldAfter (f (worldAfter (f w fl)) (fileAfter (f w fl)))) = vault w
     \<and> calls (worldAfter (f (worldAfter (f w fl)) (fileAfter (f w fl)))) = calls w
     \<and> fileAfter (f (worldAfter (f w fl)) (fileAfter (f w fl))) = fl"
proof -
  let ?w' = "worldAfter (f w fl)"
  from 1 [of w] have a: "fileAfter (f w fl) = fl"
    and b: "?w' = w \<or> ?w' = w\<lparr>console := console w @ [Warn_SettingsIncomplete]\<rparr>"
    by simp_all
  from b have c: "snapshotValue ?w' fl = snapshotValue w fl" "settings ?w' = settings w"
    "vault ?w' = vault w" "calls ?w' = calls w"
    by (auto simp: snapshotValue_console)
  from 1 [OF c(1,2)] have d: "fileAfter (f ?w' fl) = fl"
    and e: "worldAfter (f ?w' fl) = ?w'
       \<or> worldAfter (f ?w' fl) = ?w'\<lparr>console := console ?w' @ [Warn_SettingsIncomplete]\<rparr>"
    by simp_all
  from e c have "vault (worldAfter (f ?w' fl)) = vault w"
    "calls (worldAfter (f ?w' fl)) = calls w"
    by auto
  with a c d show ?thesis by simp
qed

text \<open>
  C5. In both variants: when the parent container of the document equals, as a string,
  the resolved container of its classification value, \<open>processFile\<close> attempts no host
  call (no rename, no frontmatter patch) and leaves storage and file as they were; and so
  does a second invocation right after the first.
\<close>

theorem C5_idempotence:
  assumes "snapshotValue w file = Some (VBool b)"
  shows "((case parent file of None \<Rightarrow> [] | Some p \<Rightarrow> p)
            = (if b then buildPath (rootFolder (settings w)) (trueFolder (settings w))
               else buildPath (rootFolder (settings w)) (falseFolder (settings w))) \<longrightarrow>
          vault (worldAfter (processFile w file)) = vault w
          \<and> calls (worldAfter (processFile w file)) = calls w
          \<and> fileAfter (processFile w file) = file
          \<and> vault (worldAfter (processFile (worldAfter (processFile w file))
                (fileAfter (processFile w file)))) = vault w
          \<and> calls (worldAfter (processFile (worldAfter (processFile w file))
                (fileAfter (processFile w file)))) = calls w
          \<and> fileAfter (processFile (worldAfter (processFile w file))
                (fileAfter (processFile w file))) = file)
     \<and> ((case parent file of None \<Rightarrow> [] | Some p \<Rightarrow> p)
            = (if b then trueFolder (settings w) else falseFolder (settings w)) \<longrightarrow>
          vault (worldAfter (processFile_basic w file)) = vault w
          \<and> calls (worldAfter (processFile_basic w file)) = calls w
          \<and> fileAfter (processFile_basic w file) = file
          \<and> vault (worldAfter (processFile_basic (worldAfter (processFile_basic w file))
                (fileAfter (processFile_basic w file)))) = vault w
          \<and> calls (worldAfter (processFile_basic (worldAfter (processFile_basic w file))
                (fileAfter (processFile_basic w file)))) = calls w
          \<and> fileAfter (processFile_basic (worldAfter (processFile_basic w file))
                (fileAfter (processFile_basic w file))) = file)"
proof -
  have e: "vault (worldAfter (processFile w file)) = vault w
          \<and> calls (worldAfter (processFile w file)) = calls w
          \<and> fileAfter (processFile w file) = file
          \<and> vault (worldAfter (processFile (worldAfter (processFile w file))
                (fileAfter (processFile w file)))) = vault w
          \<and> calls (worldAfter (processFile (worldAfter (processFile w file))
                (fileAfter (processFile w file)))) = calls w
          \<and> fileAfter (processFile (worldAfter (processFile w file))
                (fileAfter (processFile w file))) = file"
    if p: "(case parent file of None \<Rightarrow> [] | Some p \<Rightarrow> p)
            = (if b then buildPath (rootFolder (settings w)) (trueFolder (settings w))
               else buildPath (rootFolder (settings w)) (falseFolder (settings w)))"
  proof (rule in_place_twice [where f = processFile and w = w and fl = "file"])
    fix w'
    assume "snapshotValue w' file = snapshotValue w file" "settings w' = settings w"
    with assms p show "fileAfter (processFile w' file) = file
       \<and> (worldAfter (processFile w' file) = w'
          \<or> worldAfter (processFile w' file)
               = w'\<lparr>console := console w' @ [Warn_SettingsIncomplete]\<rparr>)"
      by (intro already_in_place [where b = b]) simp_all
  qed
  have c: "vault (worldAfter (processFile_basic w file)) = vault w
          \<and> calls (worldAfter (processFile_basic w file)) = calls w
          \<and> fileAfter (processFile_basic w file) = file
          \<and> vault (worldAfter (processFile_basic (worldAfter (processFile_basic w file))
                (fileAfter (processFile_basic w file)))) = vault w
          \<and> calls (worldAfter (processFile_basic (worldAfter (processFile_basic w file))
                (fileAfter (processFile_basic w file)))) = calls w
          \<and> fileAfter (processFile_basic (worldAfter (processFile_basic w file))
                (fileAfter (processFile_basic w file))) = file"
    if p: "(case parent file of None \<Rightarrow> [] | Some p \<Rightarrow> p)
            = (if b then trueFolder (settings w) else falseFolder (settings w))"
  proof (rule in_place_twice [where f = processFile_basic and w = w and fl = "file"])
    fix w'
    assume "snapshotValue w' file = snapshotValue w file" "settings w' = settings w"
    with assms p show "fileAfter (processFile_basic w' file) = file
       \<and> (worldAfter (processFile_basic w' file) = w'
          \<or> worldAfter (processFile_basic w' file)
               = w'\<lparr>console := console w' @ [Warn_SettingsIncomplete]\<rparr>)"
      by (intro already_in_place_basic [where b = b]) simp_all
  qed
  from e c show ?thesis by blast
qed

theorem C5_idempotence_witness:
  "snapshotValue inPlaceWorld inPlaceFile = Some (VBool True)
   \<and> (case parent inPlaceFile of None \<Rightarrow> [] | Some p \<Rightarrow> p)
       = buildPath (rootFolder (settings inPlaceWorld)) (trueFolder (settings inPlaceWorld))
   \<and> vault (worldAfter (processFile inPlaceWorld inPlaceFile)) = vault inPlaceWorld
   \<and> calls (worldAfter (processFile inPlaceWorld inPlaceFile)) = calls inPlaceWorld
   \<and> calls (worldAfter (processFile (worldAfter (processFile inPlaceWorld inPlaceFile))
         (fileAfter (processFile inPlaceWorld inPlaceFile)))) = calls inPlaceWorld"
proof -
  have h1: "snapshotValue inPlaceWorld inPlaceFile = Some (VBool True)"
    by (simp add: run_defs example_defs more_defs inPlaceWorld_def inPlaceFile_def)
  have h2: "(case parent inPlaceFile of None \<Rightarrow> [] | Some p \<Rightarrow> p)
       = (if True
          then buildPath (rootFolder (settings inPlaceWorld)) (trueFolder (settings inPlaceWorld))
          else buildPath (rootFolder (settings inPlaceWorld))
                 (falseFolder (settings inPlaceWorld)))"
    by (simp add: run_defs example_defs more_defs inPlaceWorld_def inPlaceFile_def)
  note r = C5_idempotence [OF h1, THEN conjunct1, THEN mp, OF h2]
  from h2 have h3: "(case parent inPlaceFile of None \<Rightarrow> [] | Some p \<Rightarrow> p)
       = buildPath (rootFolder (settings inPlaceWorld)) (trueFolder (settings inPlaceWorld))"
    by simp
  from r h1 h3 show ?thesis by blast
qed

subsection \<open>The completion date (C6)\<close>

lemma grows_Document: "grows v v1 \<Longrightarrow> v1 p = Some (Document fm) \<Longrightarrow> v p = Some (Document fm)"
  unfolding grows_def by (metis TAbstractFile.distinct(1) option.inject)

lemma rename_moved:
  assumes rn: "processFile_rename w1 file op b np = (r, w', file')"
    and c: "console w' @ logged r op = console w1 @ [Log_Moved op np']"
  shows "r = None \<and> np' = np \<and> path file' = np
     \<and> (\<exists>fm. vault w1 (path file) = Some (Document fm)
          \<and> vault w' np = Some (Document
               (if enableCompletedDate (settings w1)
                   \<and> completedDatePropertyName (settings w1) \<noteq> []
                then patched w1 b fm else fm)))"
proof -
  from processFile_rename_cases(4) [OF rn]
  consider (threw) "r \<noteq> None" "console w' = console w1"
    | (moved) fm where "vault w1 (path file) = Some (Document fm)" "path file' = np"
        "console w' = console w1 @ [Log_Moved op np]"
        "vault w' = (vault w1)(path file := None, np \<mapsto> Document
                 (if enableCompletedDate (settings w1)
                     \<and> completedDatePropertyName (settings w1) \<noteq> [] \<and> r = None
                  then patched w1 b fm else fm))"
    by blast
  then show ?thesis
  proof cases
    case threw
    with c show ?thesis by (auto simp: logged_def)
  next
    case moved
    from c moved(3) have r: "r = None" "np' = np"
      by (auto simp: logged_def split: option.splits)
    with moved show ?thesis by auto
  qed
qed

lemma moveOutcome_moved:
  assumes m: "moveOutcome w file op b t r w' file'"
    and c: "console w' @ logged r op = console w @ [Log_Moved op np']"
  shows "r = None \<and> np' = t @ ''/'' @ name file \<and> path file' = np'
     \<and> (\<exists>fm. vault w (path file) = Some (Document fm)
          \<and> vault w' np' = Some (Document
               (if enableCompletedDate (settings w)
                   \<and> completedDatePropertyName (settings w) \<noteq> []
                then patched w b fm else fm)))"
proof -
  from m consider
    (same) "w' = w" "r = None"
    | (isfile) "w' = w\<lparr>console := console w @ [Error_TargetIsFile t]\<rparr>" "r = None"
    | (threw) "prepared w r w'" "r \<noteq> None"
    | (renamed) w1 where "prepared w None w1"
        "processFile_rename w1 file op b (t @ ''/'' @ name file) = (r, w', file')"
    unfolding moveOutcome_def by blast
  then show ?thesis
  proof cases
    case same
    with c show ?thesis by (simp add: logged_def)
  next
    case isfile
    with c show ?thesis by (simp add: logged_def)
  next
    case threw
    with c show ?thesis by (auto simp: logged_def prepared_def)
  next
    case renamed
    from renamed(1) have p: "console w1 = console w" "grows (vault w) (vault w1)"
      "settings w1 = settings w" "clock w1 = clock w"
      by (simp_all add: prepared_def sameConfig_def)
    from c p(1) have "console w' @ logged r op = console w1 @ [Log_Moved op np']" by simp
    from rename_moved [OF renamed(2) this] obtain fm where
      r: "r = None" "np' = t @ ''/'' @ name file" "path file' = t @ ''/'' @ name file"
        "vault w1 (path file) = Some (Document fm)"
        "vault w' (t @ ''/'' @ name file) = Some (Document
               (if enableCompletedDate (settings w1)
                   \<and> completedDatePropertyName (settings w1) \<noteq> []
                then patched w1 b fm else fm))"
      by blast
    have "patched w1 b fm = patched w b fm" by (simp add: patched_def p)
    with r p grows_Document [OF p(2) r(4)] show ?thesis by auto
  qed
qed

lemma tryOutcome_moved:
  assumes m: "tryOutcome w file op tT tF r w' file'"
    and c: "console w' @ logged r op = console w @ [Log_Moved op np']"
  shows "r = None \<and> path file' = np'
     \<and> (\<exists>b fm. snapshotValue w file = Some (VBool b)
          \<and> np' = (if b then tT else tF) @ ''/'' @ name file
          \<and> vault w (path file) = Some (Document fm)
          \<and> vault w' np' = Some (Document
               (if enableCompletedDate (settings w)
                   \<and> completedDatePropertyName (settings w) \<noteq> []
                then patched w b fm else fm)))"
proof -
  from m consider
    (same) "w' = w" "r = None"
    | (warn) "w' = w\<lparr>console := console w @ [Warn_SettingsIncomplete]\<rparr>" "r = None"
    | (move) b where "snapshotValue w file = Some (VBool b)"
        "moveOutcome w file op b (if b then tT else tF) r w' file'"
    unfolding tryOutcome_def by blast
  then show ?thesis
  proof cases
    case same
    with c show ?thesis by (simp add: logged_def)
  next
    case warn
    with c show ?thesis by (simp add: logged_def)
  next
    case move
    from moveOutcome_moved [OF move(2) c] move(1) show ?thesis by blast
  qed
qed

text \<open>
  C6, as the code has it. In the extended variant, with \<open>enableCompletedDate\<close> on and
  \<open>completedDatePropertyName\<close> non-empty, when an invocation has moved the document and
  logged no error (the console has gained the line of the move and nothing else): if the
  classification value was \<open>true\<close>, the frontmatter of the moved document is the old one
  with the key set to the stamp when the key read falsy (the key is absent and not a name
  that every object inherits, or its value is null, the empty string, \<open>false\<close>, \<open>0\<close> or
  \<open>NaN\<close>), and the old one unchanged otherwise; if the value was \<open>false\<close>, it is the old
  one without the key. The stamp is the reading of the clock as \<open>formatInTimeZone\<close>
  formats it, which is an ISO-8601 timestamp with offset for every reading of a clock
  whose year is below 10000.
\<close>

theorem C6_completed_date_amended:
  assumes "enableCompletedDate (settings w)"
    and "completedDatePropertyName (settings w) \<noteq> []"
    and "console (worldAfter (processFile w file)) = console w @ [Log_Moved (path file) np]"
  shows "(\<exists>b fm. snapshotValue w file = Some (VBool b)
     \<and> vault w (path file) = Some (Document fm)
     \<and> path (fileAfter (processFile w file)) = np
     \<and> vault (worldAfter (processFile w file)) np = Some (Document
          (if b
           then (if falsy (readProperty fm (completedDatePropertyName (settings w)))
                 then fm(completedDatePropertyName (settings w)
                           \<mapsto> VStr (formatInTimeZone (clock w)))
                 else fm)
           else fm(completedDatePropertyName (settings w) := None))))
     \<and> (year (clock w) < 10000 \<and> validClock (clock w) \<longrightarrow>
          isIso8601Offset (formatInTimeZone (clock w)))"
proof (cases "path file \<in> processing w")
  case True
  with assms(3) show ?thesis by (simp add: processFile_held worldAfter_def)
next
  case False
  let ?w1 = "w\<lparr>processing := insert (path file) (processing w)\<rparr>"
  obtain r2 w2 file2 tT tF where t:
    "tryOutcome ?w1 file (path file) tT tF r2 w2 file2"
    "processFile w file = processFile_catch_finally (path file) (r2, w2, file2)"
    using False by (rule processFile_free)
  note cf = catch_finally_effect [OF False t]
  from cf(7) assms(3) have "console w2 @ logged r2 (path file)
       = console ?w1 @ [Log_Moved (path file) np]"
    by (simp add: logged_def)
  from tryOutcome_moved [OF t(1) this] assms(1,2) obtain b fm where
    m: "path file2 = np" "snapshotValue ?w1 file = Some (VBool b)"
       "vault w (path file) = Some (Document fm)"
       "vault w2 np = Some (Document (patched ?w1 b fm))"
    by auto
  have "patched ?w1 b fm
      = (if b
           then (if falsy (readProperty fm (completedDatePropertyName (settings w)))
                 then fm(completedDatePropertyName (settings w)
                           \<mapsto> VStr (formatInTimeZone (clock w)))
                 else fm)
           else fm(completedDatePropertyName (settings w) := None))"
    by (simp add: patched_def stampCompletedDate_def clearCompletedDate_def)
  with m cf(2,6) have "\<exists>b fm. snapshotValue w file = Some (VBool b)
     \<and> vault w (path file) = Some (Document fm)
     \<and> path (fileAfter (processFile w file)) = np
     \<and> vault (worldAfter (processFile w file)) np = Some (Document
          (if b
           then (if falsy (readProperty fm (completedDatePropertyName (settings w)))
                 then fm(completedDatePropertyName (settings w)
                           \<mapsto> VStr (formatInTimeZone (clock w)))
                 else fm)
           else fm(completedDatePropertyName (settings w) := None)))"
    by (auto simp: snapshotValue_processing)
  moreover have "isIso8601Offset (formatInTimeZone (clock w))"
    if "year (clock w) < 10000" "validClock (clock w)"
    using that by (rule formatInTimeZone_iso)
  ultimately show ?thesis by blast
qed

theorem C6_completed_date_amended_witness:
  "enableCompletedDate (settings exampleWorld)
   \<and> completedDatePropertyName (settings exampleWorld) \<noteq> []
   \<and> console (worldAfter (processFile exampleWorld exampleFile))
       = console exampleWorld @ [Log_Moved (path exampleFile) ''taskflow/archive/t.md'']
   \<and> (\<exists>b fm. snapshotValue exampleWorld exampleFile = Some (VBool b)
     \<and> vault exampleWorld (path exampleFile) = Some (Document fm)
     \<and> path (fileAfter (processFile exampleWorld exampleFile)) = ''taskflow/archive/t.md''
     \<and> vault (worldAfter (processFile exampleWorld exampleFile)) ''taskflow/archive/t.md''
        = Some (Document
          (if b
           then (if falsy (readProperty fm (completedDatePropertyName (settings exampleWorld)))
                 then fm(completedDatePropertyName (settings exampleWorld)
                           \<mapsto> VStr (formatInTimeZone (clock exampleWorld)))
                 else fm)
           else fm(completedDatePropertyName (settings exampleWorld) := None))))
   \<and> year (clock exampleWorld) < 10000 \<and> validClock (clock exampleWorld)
   \<and> formatInTimeZone (clock exampleWorld) = ''2026-01-01T09:00:00+01:00''
   \<and> isIso8601Offset (formatInTimeZone (clock exampleWorld))"
proof -
  have h1: "enableCompletedDate (settings exampleWorld)"
    and h2: "completedDatePropertyName (settings exampleWorld) \<noteq> []"
    by (simp_all add: example_defs)
  have h3: "console (worldAfter (processFile exampleWorld exampleFile))
       = console exampleWorld @ [Log_Moved (path exampleFile) ''taskflow/archive/t.md'']"
    by (simp add: run_defs example_defs)
  have h4: "year (clock exampleWorld) < 10000" and h5: "validClock (clock exampleWorld)"
    by (simp_all add: example_defs validClock_def)
  have h6: "formatInTimeZone (clock exampleWorld) = ''2026-01-01T09:00:00+01:00''"
    by (simp add: run_defs example_defs)
  from C6_completed_date_amended [OF h1 h2 h3] h1 h2 h3 h4 h5 h6 show ?thesis by blast
qed

text \<open>
  C6 as stated fails twice. A value that exists under the key is overwritten when it is
  falsy without being empty, here the boolean \<open>false\<close>. And the stamp of an instant of the
  year 10000 has a year of five digits, which is no ISO-8601 timestamp.
\<close>

theorem C6_completed_date_counterexample:
  "vault falseDateWorld ''taskflow/t.md''
     = Some (Document [checkmark \<mapsto> VBool True, ''completed_date'' \<mapsto> VBool False])
   \<and> snapshotValue falseDateWorld exampleFile = Some (VBool True)
   \<and> vault (worldAfter (processFile falseDateWorld exampleFile)) ''taskflow/archive/t.md''
     = Some (Document [checkmark \<mapsto> VBool True,
          ''completed_date'' \<mapsto> VStr ''2026-01-01T09:00:00+01:00''])
   \<and> vault (worldAfter (processFile lateWorld exampleFile)) ''taskflow/archive/t.md''
     = Some (Document [checkmark \<mapsto> VBool True,
          ''completed_date'' \<mapsto> VStr ''10000-01-01T09:00:00+01:00''])
   \<and> \<not> isIso8601Offset ''10000-01-01T09:00:00+01:00''"
  by (simp add: run_defs example_defs falseDateWorld_def lateWorld_def isIso8601Offset_def
      takeDigits_def takeChar_def isDigit_def)

subsection \<open>Errors stay inside (C7)\<close>

text \<open>
  C7. In both variants no error leaves \<open>processFile\<close>: the result carries no error, the
  guard set is what it was, and for every host call of the invocation that threw (creating
  a container, the rename, the frontmatter patch) the console holds the error line with the
  document's original path.
\<close>

theorem C7_no_error_propagates:
  "thrown (processFile w file) = None
   \<and> processing (worldAfter (processFile w file)) = processing w
   \<and> (\<forall>c. (c, True) \<in> set (newCalls w (worldAfter (processFile w file))) \<longrightarrow>
         Error_Processing (path file) (HostError c)
           \<in> set (console (worldAfter (processFile w file))))
   \<and> thrown (processFile_basic w file) = None
   \<and> processing (worldAfter (processFile_basic w file)) = processing w
   \<and> (\<forall>c. (c, True) \<in> set (newCalls w (worldAfter (processFile_basic w file))) \<longrightarrow>
         Error_Processing (path file) (HostError c)
           \<in> set (console (worldAfter (processFile_basic w file))))"
proof (cases "path file \<in> processing w")
  case True
  then show ?thesis
    by (simp add: processFile_held processFile_basic_held thrown_def worldAfter_def
        newCalls_same)
next
  case False
  let ?w1 = "w\<lparr>processing := insert (path file) (processing w)\<rparr>"
  obtain r2 w2 file2 tT tF where e:
    "tryOutcome ?w1 file (path file) tT tF r2 w2 file2"
    "processFile w file = processFile_catch_finally (path file) (r2, w2, file2)"
    using False by (rule processFile_free)
  obtain r3 w3 file3 tT' tF' where b:
    "tryOutcome ?w1 file (path file) tT' tF' r3 w3 file3"
    "processFile_basic w file = processFile_catch_finally (path file) (r3, w3, file3)"
    using False by (rule processFile_basic_free)
  note ge = guarded_result(1,2,4) [OF False e]
  note gb = guarded_result(1,2,4) [OF False b]
  from ge gb show ?thesis by blast
qed

theorem C7_no_error_propagates_witness:
  "(Rename ''taskflow/t.md'' ''taskflow/archive/t.md'', True)
      \<in> set (newCalls failingWorld (worldAfter (processFile failingWorld exampleFile)))
   \<and> Error_Processing (path exampleFile)
        (HostError (Rename ''taskflow/t.md'' ''taskflow/archive/t.md''))
      \<in> set (console (worldAfter (processFile failingWorld exampleFile)))
   \<and> thrown (processFile failingWorld exampleFile) = None"
proof -
  have h: "(Rename ''taskflow/t.md'' ''taskflow/archive/t.md'', True)
      \<in> set (newCalls failingWorld (worldAfter (processFile failingWorld exampleFile)))"
    by (simp add: run_defs example_defs failingWorld_def)
  from C7_no_error_propagates [of failingWorld exampleFile] h show ?thesis by blast
qed

subsection \<open>The root scope (C8)\<close>

text \<open>
  C8. In the extended variant, a document whose path does not begin with the non-empty
  root folder followed by \<open>/\<close> is left alone: \<open>processFile\<close> returns the world and the file
  as they were, whatever the document's property value.
\<close>

theorem C8_root_scope_exclusion:
  assumes "rootFolder (settings w) \<noteq> []"
    and "\<not> startsWith (path file) (rootFolder (settings w) @ ''/'')"
  shows "processFile w file = (None, w, file)"
  using assms
  by (simp add: processFile_def processFile_try_def processFile_catch_finally_def Let_def
      guard_restore)

theorem C8_root_scope_exclusion_witness:
  "rootFolder (settings exampleWorld) \<noteq> []
   \<and> \<not> startsWith (path outsideFile) (rootFolder (settings exampleWorld) @ ''/'')
   \<and> processFile exampleWorld outsideFile = (None, exampleWorld, outsideFile)"
proof -
  have h1: "rootFolder (settings exampleWorld) \<noteq> []"
    by (simp add: example_defs)
  have h2: "\<not> startsWith (path outsideFile) (rootFolder (settings exampleWorld) @ ''/'')"
    by (simp add: example_defs startsWith_def)
  from C8_root_scope_exclusion [OF h1 h2] h1 h2 show ?thesis by simp
qed

subsection \<open>The task counter (C9)\<close>

lemma ulp_small: "n < 2 ^ 53 \<Longrightarrow> ulp n = 1"
  by (subst ulp.simps) simp

lemma roundToDouble_exact: "n \<le> 2 ^ 53 \<Longrightarrow> roundToDouble n = n"
proof (cases "n < 2 ^ 53")
  case True
  then show ?thesis by (simp add: roundToDouble_def ulp_small)
next
  case False
  assume "n \<le> 2 ^ 53"
  with False have n: "n = 2 ^ 53" by simp
  have "ulp (2 ^ 53) = 2 * ulp (2 ^ 52)" by (subst ulp.simps) simp
  also have "ulp (2 ^ 52) = 1" by (rule ulp_small) simp
  finally have "ulp (2 ^ 53) = 2" by simp
  then show ?thesis by (simp add: roundToDouble_def n)
qed

lemma toNumber_exact: "n \<le> 2 ^ 53 \<Longrightarrow> toNumber n = Num n"
proof -
  assume a: "n \<le> 2 ^ 53"
  have "(2::nat) ^ 53 < 2 ^ 1024" by (rule power_strict_increasing) simp_all
  with a have "n < 2 ^ 1024" by (rule le_less_trans)
  with a show ?thesis by (simp add: toNumber_def roundToDouble_exact)
qed

lemma detectTaskCounter_loop_fold:
  "\<forall>n \<in> set (taskNumbers root files). n < 2 ^ 53 \<Longrightarrow>
     detectTaskCounter_loop root files (Num m) = Num (fold max (taskNumbers root files) m)"
proof (induction files arbitrary: m)
  case Nil
  then show ?case by (simp add: taskNumbers_def List.map_filter_simps)
next
  case (Cons x files)
  show ?case
  proof (cases "inScope root x")
    case False
    with Cons.prems have "\<forall>n \<in> set (taskNumbers root files). n < 2 ^ 53"
      by (simp add: taskNumbers_def List.map_filter_simps)
    from Cons.IH [OF this, of m] False show ?thesis
      by (simp add: taskNumbers_def List.map_filter_simps inScope_def)
  next
    case True
    show ?thesis
    proof (cases "matchTask (name x)")
      case None
      with True Cons.prems have "\<forall>n \<in> set (taskNumbers root files). n < 2 ^ 53"
        by (simp add: taskNumbers_def List.map_filter_simps taskNumber_def)
      from Cons.IH [OF this, of m] True None show ?thesis
        by (simp add: taskNumbers_def List.map_filter_simps inScope_def taskNumber_def)
    next
      case (Some ds)
      with True Cons.prems have d: "decimalValue ds < 2 ^ 53"
        and rest: "\<forall>n \<in> set (taskNumbers root files). n < 2 ^ 53"
        by (simp_all add: taskNumbers_def List.map_filter_simps taskNumber_def)
      from d have p: "parseInt ds = Num (decimalValue ds)"
        by (simp add: parseInt_def toNumber_exact)
      from Cons.IH [OF rest, of "max (decimalValue ds) m"] True Some p show ?thesis
        by (auto simp: taskNumbers_def List.map_filter_simps inScope_def taskNumber_def
            Let_def max_def)
    qed
  qed
qed

lemma fold_max_Max: "xs \<noteq> [] \<Longrightarrow> fold max xs (0::nat) = Max (set xs)"
proof (cases xs)
  case Nil
  assume "xs \<noteq> []"
  with Nil show ?thesis by simp
next
  case (Cons x ys)
  with Max.set_eq_fold [of x ys] show ?thesis by simp
qed

lemma fold_max_bound:
  "\<forall>n \<in> set xs. n < b \<Longrightarrow> m < b \<Longrightarrow> fold max xs (m::nat) < b"
  by (induction xs arbitrary: m) simp_all

text \<open>
  C9, as the code has it. When every task number among the names of the documents in scope
  is below \<open>2^53\<close>, \<open>detectTaskCounter\<close> sets \<open>taskCounter\<close> to one above the highest of
  them (the documents in scope are those under the root folder, or all documents when the
  root folder is empty), and to 1 when no such name carries a task identifier; this
  whether or not saving the settings succeeds.
\<close>

theorem C9_detect_task_counter_amended:
  assumes "\<forall>n \<in> set (taskNumbers (rootFolder (settings w)) files). n < 2 ^ 53"
  shows "taskCounter (settings (snd (detectTaskCounter files w)))
           = Num (expectedCounter (rootFolder (settings w)) files)"
proof -
  let ?ns = "taskNumbers (rootFolder (settings w)) files"
  have "fold max ?ns 0 < 2 ^ 53" using assms by (rule fold_max_bound) simp
  then have "plusOne (Num (fold max ?ns 0)) = Num (fold max ?ns 0 + 1)"
    by (simp add: toNumber_exact)
  moreover have "fold max ?ns 0 + 1 = expectedCounter (rootFolder (settings w)) files"
    by (simp add: expectedCounter_def fold_max_Max)
  ultimately show ?thesis
    by (simp add: detectTaskCounter_def saveSettings_def saveData_def Let_def
        detectTaskCounter_loop_fold [OF assms])
qed

theorem C9_detect_task_counter_amended_witness:
  "taskNumbers (rootFolder (settings exampleWorld)) taskFiles = [7, 12]
   \<and> taskCounter (settings (snd (detectTaskCounter taskFiles exampleWorld))) = Num 13"
proof -
  have n: "taskNumbers (rootFolder (settings exampleWorld)) taskFiles = [7, 12]"
    by (simp add: taskFiles_def taskNumbers_def List.map_filter_simps inScope_def
        taskNumber_def matchTask_def startsWith_def isDigit_def decimalValue_def digitVal_def
        example_defs Let_def)
  then have h: "\<forall>n \<in> set (taskNumbers (rootFolder (settings exampleWorld)) taskFiles).
      n < 2 ^ 53"
    by simp
  from C9_detect_task_counter_amended [OF h] n show ?thesis
    by (simp add: expectedCounter_def)
qed

text \<open>
  C9 as stated fails where the numbers of JavaScript are not exact: for the single task
  \<open>[TASK-9007199254740993]\<close>, whose number is \<open>2^53 + 1\<close>, \<open>parseInt\<close> gives \<open>2^53\<close>, adding
  one gives \<open>2^53\<close> again, and the counter is set to a number below the one in the name.
\<close>

theorem C9_detect_task_counter_counterexample:
  "taskNumbers (rootFolder (settings exampleWorld)) bigFiles = [9007199254740993]
   \<and> expectedCounter (rootFolder (settings exampleWorld)) bigFiles = 9007199254740994
   \<and> taskCounter (settings (snd (detectTaskCounter bigFiles exampleWorld)))
       = Num 9007199254740992"
proof -
  have d: "decimalValue ''9007199254740993'' = 9007199254740993"
    by (simp add: decimalValue_def digitVal_def)
  have m: "matchTask ''[TASK-9007199254740993] big.md'' = Some ''9007199254740993''"
    by (simp add: matchTask_def startsWith_def isDigit_def Let_def)
  have u: "ulp 9007199254740993 = 2"
    by (simp add: ulp.simps [of 9007199254740993] ulp.simps [of 4503599627370496])
  have r: "roundToDouble 9007199254740993 = 9007199254740992"
    by (simp add: roundToDouble_def u)
  have p: "toNumber 9007199254740993 = Num 9007199254740992"
    by (simp add: toNumber_def r Let_def)
  have n: "taskNumbers (rootFolder (settings exampleWorld)) bigFiles = [9007199254740993]"
    by (simp add: bigFiles_def taskNumbers_def List.map_filter_simps inScope_def
        taskNumber_def startsWith_def m d example_defs)
  have l: "detectTaskCounter_loop (rootFolder (settings exampleWorld)) bigFiles (Num 0)
      = Num 9007199254740992"
    by (simp add: bigFiles_def m parseInt_def d p startsWith_def example_defs)
  show ?thesis
    by (simp add: n expectedCounter_def detectTaskCounter_def saveSettings_def saveData_def
        Let_def l p)
qed

subsection \<open>What a call leaves alone (C10)\<close>




end
